theory Spec2Isabelle
  imports Main "HOL-Library.Word"
begin

unbundle bit_operations_syntax

section \<open>Machine types and the C library predicates used by pcre2test.c\<close>

type_synonym u8 = "8 word"
type_synonym u16 = "16 word"
type_synonym u32 = "32 word"

text \<open>
  A C string is a list of bytes followed by a terminating zero that is not part of the
  list: reading at or beyond the end of the list gives the terminator.
\<close>

definition byte_at :: "u8 list \<Rightarrow> nat \<Rightarrow> u8" where
  "byte_at s k = (if k < length s then s ! k else 0)"

text \<open>The \<open>ctype.h\<close> predicates in the "C" locale, on byte values.\<close>

definition isspace_c :: "u8 \<Rightarrow> bool" where
  "isspace_c c = (c = 32 \<or> (9 \<le> c \<and> c \<le> 13))"

definition isdigit_c :: "u8 \<Rightarrow> bool" where
  "isdigit_c c = (48 \<le> c \<and> c \<le> 57)"

definition isxdigit_c :: "u8 \<Rightarrow> bool" where
  "isxdigit_c c = (isdigit_c c \<or> (65 \<le> c \<and> c \<le> 70) \<or> (97 \<le> c \<and> c \<le> 102))"

definition tolower_c :: "u8 \<Rightarrow> u8" where
  "tolower_c c = (if 65 \<le> c \<and> c \<le> 90 then c + 32 else c)"

section \<open>Codepoint codec: \<open>utf82ord\<close> and \<open>ord2utf8\<close>\<close>

text \<open>
  Modelled from the spec: the tables \<open>utf8_table1\<close>, \<open>utf8_table2\<close> and \<open>utf8_table3\<close> come
  from \<open>pcre2_tables.c\<close>, which pcre2test.c includes and which is not part of the sources
  at hand. The codec is the six-byte form of RFC 2279 (codepoints up to 0x7fffffff), which
  fixes the tables: the largest codepoint of each length, the lead-byte marker of each
  length, and the mask of the payload bits of a lead byte.
\<close>

definition utf8_table1 :: "u32 list" where
  "utf8_table1 = [0x7f, 0x7ff, 0xffff, 0x1fffff, 0x3ffffff, 0x7fffffff]"

definition utf8_table1_size :: nat where
  "utf8_table1_size = 6"

definition utf8_table2 :: "u32 list" where
  "utf8_table2 = [0, 0xc0, 0xe0, 0xf0, 0xf8, 0xfc]"

definition utf8_table3 :: "u32 list" where
  "utf8_table3 = [0xff, 0x1f, 0x0f, 0x07, 0x03, 0x01]"

text \<open>
  \<^verbatim>\<open>for (i = -1; i < 6; i++) { if ((d & 0x80) == 0) break; d <<= 1; }\<close>
  counts the additional bytes announced by the lead byte.
\<close>

function utf82ord_extra :: "int \<Rightarrow> u32 \<Rightarrow> int" where
  "utf82ord_extra i d =
     (if i < 6 then (if d AND 0x80 = 0 then i else utf82ord_extra (i + 1) (push_bit 1 d))
      else i)"
  by pat_completeness auto
termination
  by (relation "measure (\<lambda>(i, d). nat (6 - i))") auto

declare utf82ord_extra.simps [simp del]

text \<open>
  \<^verbatim>\<open>for (j = 0; j < i; j++) { c = *utf8bytes++; if ((c & 0xc0) != 0x80) return -(j+1);
       s -= 6; d |= (c & 0x3f) << s; }\<close>
  The bytes are read at positions \<open>1 + j\<close> of the vector; \<open>Inl\<close> is the early return.
\<close>

function utf82ord_cont :: "u8 list \<Rightarrow> nat \<Rightarrow> nat \<Rightarrow> nat \<Rightarrow> u32 \<Rightarrow> int + u32" where
  "utf82ord_cont utf8bytes j i s d =
     (if j < i then
        (let c = (ucast (byte_at utf8bytes (1 + j)) :: u32) in
         if c AND 0xc0 \<noteq> 0x80 then Inl (- (int j + 1))
         else utf82ord_cont utf8bytes (j + 1) i (s - 6) (d OR push_bit (s - 6) (c AND 0x3f)))
      else Inr d)"
  by pat_completeness auto
termination
  by (relation "measure (\<lambda>(b, j, i, s, d). i - j)") auto

declare utf82ord_cont.simps [simp del]

text \<open>
  \<^verbatim>\<open>for (j = 0; j < utf8_table1_size; j++) if (d <= (uint32_t)utf8_table1[j]) break;\<close>
  The same search opens \<open>ord2utf8\<close>.
\<close>

function table1_index :: "nat \<Rightarrow> u32 \<Rightarrow> nat" where
  "table1_index j d =
     (if j < utf8_table1_size then (if d \<le> utf8_table1 ! j then j else table1_index (j + 1) d)
      else j)"
  by pat_completeness auto
termination
  by (relation "measure (\<lambda>(j, d). utf8_table1_size - j)") auto

declare table1_index.simps [simp del]

text \<open>
  \<open>utf82ord utf8bytes v\<close> returns the C return value together with the contents of
  \<open>*vptr\<close> afterwards (\<open>v\<close> before the call, left alone on a malformed sequence).
\<close>

definition utf82ord :: "u8 list \<Rightarrow> u32 \<Rightarrow> int \<times> u32" where
  "utf82ord utf8bytes v =
     (let c = (ucast (byte_at utf8bytes 0) :: u32);
          i = utf82ord_extra (- 1) c
      in if i = - 1 then (1, c)
         else if i = 0 \<or> i = 6 then (0, v)
         else
           (let s = 6 * nat i;
                d = push_bit s (c AND utf8_table3 ! nat i)
            in case utf82ord_cont utf8bytes 0 (nat i) s d of
                 Inl r \<Rightarrow> (r, v)
               | Inr d' \<Rightarrow>
                   if int (table1_index 0 d') \<noteq> i then (- (i + 1), v)
                   else (i + 1, d')))"

text \<open>
  \<^verbatim>\<open>for (j = i; j > 0; j--) { *utf8bytes-- = 0x80 | (cvalue & 0x3f); cvalue >>= 6; }
  *utf8bytes = utf8_table2[i] | cvalue;\<close>
  The bytes are stored from the last position down to the first; \<open>acc\<close> holds the bytes
  already stored behind the current position.
\<close>

fun ord2utf8_fill :: "nat \<Rightarrow> nat \<Rightarrow> u32 \<Rightarrow> u8 list \<Rightarrow> u8 list" where
  "ord2utf8_fill i 0 cvalue acc = ucast (utf8_table2 ! i OR cvalue) # acc"
| "ord2utf8_fill i (Suc j) cvalue acc =
     ord2utf8_fill i j (drop_bit 6 cvalue) (ucast (0x80 OR (cvalue AND 0x3f)) # acc)"

text \<open>
  \<open>ord2utf8 cvalue\<close> returns the C return value and the bytes stored at the start of
  the caller's buffer (none when the value is refused).
\<close>

definition ord2utf8 :: "u32 \<Rightarrow> int \<times> u8 list" where
  "ord2utf8 cvalue =
     (if cvalue > 0x7fffffff then (- 1, [])
      else (let i = table1_index 0 cvalue
            in (int i + 1, ord2utf8_fill i i cvalue [])))"

section \<open>Width converter: \<open>to16\<close>\<close>

text \<open>
  How a call ends: \<open>exit(n)\<close> ends the whole process, a fault is a store or a load the C
  standard leaves undefined (through a null or dangling pointer, or outside the
  allocation), otherwise the function returns.
\<close>

datatype 'a outcome = Exits int | Faults | Returns 'a

text \<open>
  The static variables \<open>pbuffer16\<close> and \<open>pbuffer16_size\<close>. The buffer is \<open>None\<close> while the
  pointer is null; otherwise it holds the 16-bit units stored from its start.
\<close>

record pbuf16 =
  pbuffer16_size :: int
  pbuffer16 :: "u16 list option"

text \<open>
  The conversion loop of \<open>to16\<close>. \<open>p\<close> is the rest of the byte string (zero-terminated),
  \<open>len\<close> the number of bytes still to convert, \<open>pp\<close> the units stored so far. The local
  \<open>c\<close> is uninitialised before \<open>utf82ord\<close> stores into it; the model starts it at 0.
  The result is the return value and the units stored, with the final zero unit when the
  loop runs to its end.
\<close>

function to16_loop :: "u8 list \<Rightarrow> bool \<Rightarrow> int \<Rightarrow> u16 list \<Rightarrow> int \<times> u16 list" where
  "to16_loop p utf len pp =
     (if len > 0 then
        (case utf82ord p 0 of (chlen, c) \<Rightarrow>
           if chlen \<le> 0 then (- 1, pp)
           else if c > 0x10ffff then (- 2, pp)
           else if c < 0x10000
             then to16_loop (drop (nat chlen) p) utf (len - chlen) (pp @ [ucast c])
           else if \<not> utf then (- 3, pp)
           else to16_loop (drop (nat chlen) p) utf (len - chlen)
                  (pp @ [ucast (0xD800 OR drop_bit 10 (c - 0x10000)),
                         ucast (0xDC00 OR ((c - 0x10000) AND 0x3ff))]))
      else (int (length pp), pp @ [0]))"
  by pat_completeness auto
termination
  by (relation "measure (\<lambda>(p, utf, len, pp). nat len)") auto

declare to16_loop.simps [simp del]

text \<open>Storing \<open>new\<close> from the start of a buffer that held \<open>old\<close>.\<close>

definition overwrite :: "'a list \<Rightarrow> 'a list \<Rightarrow> 'a list" where
  "overwrite old new = new @ drop (length new) old"

text \<open>
  \<open>to16 malloc_ok st p utf len\<close>: \<open>malloc_ok n\<close> says whether \<open>malloc(n)\<close> succeeds. \<open>len\<close>
  and \<open>pbuffer16_size\<close> are of type \<open>int\<close>, which has 32 bits: \<open>2*len + 2\<close> is computed
  in that type, and when its value does not fit the behaviour is undefined. The buffer is
  replaced when it is smaller than \<open>2*len + 2\<close> bytes (at least 256 are requested); a
  failed allocation ends the process with \<open>exit(1)\<close>.
\<close>

definition INT_MAX :: int where
  "INT_MAX = 2147483647"

definition INT_MIN :: int where
  "INT_MIN = - 2147483648"

definition to16 :: "(int \<Rightarrow> bool) \<Rightarrow> pbuf16 \<Rightarrow> u8 list \<Rightarrow> bool \<Rightarrow> int \<Rightarrow> (int \<times> pbuf16) outcome" where
  "to16 malloc_ok st p utf len =
     (if 2 * len + 2 > INT_MAX \<or> 2 * len + 2 < INT_MIN then Faults
      else if pbuffer16_size st < 2 * len + 2 then
        (let sz = (if 2 * len + 2 < 256 then 256 else 2 * len + 2) in
         if \<not> malloc_ok sz then Exits 1
         else (case to16_loop p utf len [] of (r, units) \<Rightarrow>
                 Returns (r, \<lparr>pbuffer16_size = sz, pbuffer16 = Some units\<rparr>)))
      else
        (case pbuffer16 st of
           None \<Rightarrow> Faults
         | Some old \<Rightarrow>
             (case to16_loop p utf len [] of (r, units) \<Rightarrow>
                Returns (r, st\<lparr>pbuffer16 := Some (overwrite old units)\<rparr>))))"

text \<open>
  The textual form of a list of codepoints: the concatenation of their \<open>ord2utf8\<close>
  encodings. This is what the program hands to \<open>to16\<close> as \<open>p\<close>.
\<close>

definition utf8_of :: "u32 list \<Rightarrow> u8 list" where
  "utf8_of cps = concat (map (\<lambda>c. snd (ord2utf8 c)) cps)"

text \<open>The 16-bit units of one codepoint in UTF mode, as the claim words them.\<close>

definition utf16_units :: "u32 \<Rightarrow> u16 list" where
  "utf16_units c =
     (if c < 0x10000 then [ucast c]
      else [ucast (0xD800 OR drop_bit 10 (c - 0x10000)),
            ucast (0xDC00 OR ((c - 0x10000) AND 0x3ff))])"

text \<open>
  What the conversion loop does, told codepoint by codepoint: the reference against
  which \<open>to16_loop\<close> is compared on the textual form of a list of codepoints.
\<close>

fun to16_units :: "u32 list \<Rightarrow> bool \<Rightarrow> u16 list \<Rightarrow> int \<times> u16 list" where
  "to16_units [] utf pp = (int (length pp), pp @ [0])"
| "to16_units (c # cs) utf pp =
     (if c > 0x10ffff then (- 2, pp)
      else if c < 0x10000 then to16_units cs utf (pp @ [ucast c])
      else if \<not> utf then (- 3, pp)
      else to16_units cs utf (pp @ utf16_units c))"

section \<open>Data-line encoder: the first part of \<open>process_data\<close>\<close>

datatype test_mode = PCRE8_MODE | PCRE16_MODE | PCRE32_MODE

fun code_unit_size :: "test_mode \<Rightarrow> nat" where
  "code_unit_size PCRE8_MODE = 1"
| "code_unit_size PCRE16_MODE = 2"
| "code_unit_size PCRE32_MODE = 4"

text \<open>The messages that the encoder prints on \<open>outfile\<close>, with their arguments.\<close>

datatype diag =
    Invalid_UTF8_input
  | Expected_open_brace
  | Expected_close_brace
  | Zero_repeat_not_allowed
  | Too_many_octal_digits
  | Missing_close_brace_octal
  | Too_many_hex_digits
  | Nested_duplication
  | Unrecognized_escape u8
  | Greater_than_7fffffff u32
  | Greater_than_255 u32
  | Greater_than_10ffff u32
  | Greater_than_ffff u32

text \<open>
  The data buffer lives in one heap allocation. A pointer is a pair of the allocation
  it points into and a byte offset; allocation 0 is the null pointer. \<open>realloc\<close> may
  fail, may extend the allocation in place or may move it: the environment decides.
  When it moves, the allocation gets a new name and every pointer into the old one is
  dangling. \<open>size_t\<close> has 64 bits.
\<close>

type_synonym ptr = "nat \<times> nat"

record heap_env =
  realloc_ok :: "nat \<Rightarrow> bool"
  realloc_moves :: "nat \<Rightarrow> bool"

definition size_max :: nat where
  "size_max = 2 ^ 64"

text \<open>
  The statics \<open>dbuffer\<close>, \<open>dbuffer_size\<close> and the stream \<open>outfile\<close>, the contents of the
  allocation, and the locals \<open>q\<close> (\<open>q8\<close>, \<open>q16\<close> or \<open>q32\<close>, as a byte pointer),
  \<open>start_dup\<close> and \<open>needlen\<close> of \<open>process_data\<close>.
\<close>

record enc_state =
  dbuffer :: nat
  dbuffer_size :: nat
  dmem :: "nat \<Rightarrow> u8"
  q :: ptr
  start_dup :: "ptr option"
  needlen :: nat
  outfile :: "diag list"

text \<open>
  \<^verbatim>\<open>dbuffer = (uint8_t *)realloc(dbuffer, dbuffer_size);\<close> with \<open>None\<close> for a null
  result. A request for no bytes is taken to fail.
\<close>

definition realloc_dbuffer :: "heap_env \<Rightarrow> enc_state \<Rightarrow> enc_state option" where
  "realloc_dbuffer env st =
     (if dbuffer_size st = 0 \<or> \<not> realloc_ok env (dbuffer_size st) then None
      else Some (st\<lparr>dbuffer :=
              (if dbuffer st = 0 \<or> realloc_moves env (dbuffer_size st)
               then Suc (dbuffer st) else dbuffer st)\<rparr>))"

text \<open>The number of doublings after which a size has wrapped around to 0.\<close>

definition doublings :: "nat \<Rightarrow> nat" where
  "doublings s = (LEAST k. (2 ^ k * s) mod 2 ^ 64 = 0)"

lemma doublings_step:
  assumes "(2 * s) mod 2 ^ 64 \<noteq> 0"
  shows "doublings ((2 * s) mod 2 ^ 64) < doublings s"
proof -
  let ?P = "\<lambda>k. (2 ^ k * s) mod 2 ^ 64 = (0::nat)"
  have p64: "?P 64" by simp
  have n0: "\<not> ?P 0" using assms by (auto simp add: mod_eq_0_iff_dvd)
  have eq: "\<And>m. (2 ^ m * ((2 * s) mod 2 ^ 64)) mod 2 ^ 64 = (2 ^ Suc m * s) mod 2 ^ 64"
    by (simp add: mod_mult_right_eq mult.assoc mult.left_commute)
  have "(LEAST k. ?P k) = Suc (LEAST m. ?P (Suc m))"
    using p64 n0 by (rule Least_Suc)
  moreover have "doublings ((2 * s) mod 2 ^ 64) = (LEAST m. ?P (Suc m))"
    unfolding doublings_def by (simp only: eq)
  ultimately show ?thesis by (simp add: doublings_def)
qed

lemma doublings_less:
  "0 < (2 * s) mod size_max \<Longrightarrow> doublings ((2 * s) mod size_max) < doublings s"
  unfolding size_max_def by (rule doublings_step) simp

text \<open>
  \<^verbatim>\<open>while (dbuffer == NULL || needlen >= dbuffer_size)
    { dbuffer_size *= 2; dbuffer = realloc(dbuffer, dbuffer_size);
      if (dbuffer == NULL) { ... exit(1); } }\<close>
\<close>

function grow_dbuffer :: "heap_env \<Rightarrow> enc_state \<Rightarrow> enc_state outcome" where
  "grow_dbuffer env st =
     (if dbuffer st = 0 \<or> needlen st \<ge> dbuffer_size st then
        (case realloc_dbuffer env (st\<lparr>dbuffer_size := (2 * dbuffer_size st) mod size_max\<rparr>) of
           None \<Rightarrow> Exits 1
         | Some st' \<Rightarrow> grow_dbuffer env st')
      else Returns st)"
  by pat_completeness auto
termination
  by (relation "measure (\<lambda>(env, st). doublings (dbuffer_size st))")
     (auto simp add: realloc_dbuffer_def split: if_splits intro: doublings_less)

declare grow_dbuffer.simps [simp del]

text \<open>
  The same loop where a duplication is closed. It has no null test and re-bases \<open>q\<close>
  by its offset after every \<open>realloc\<close>:
  \<^verbatim>\<open>while (needlen >= dbuffer_size)
    { dbuffer_size *= 2; dbuffer = realloc(dbuffer, dbuffer_size); ...
      SETCASTPTR(q, dbuffer + qoffset); }\<close>
  \<open>start_dup\<close> is not touched.
\<close>

function grow_dup :: "heap_env \<Rightarrow> nat \<Rightarrow> enc_state \<Rightarrow> enc_state outcome" where
  "grow_dup env qoffset st =
     (if needlen st \<ge> dbuffer_size st then
        (case realloc_dbuffer env (st\<lparr>dbuffer_size := (2 * dbuffer_size st) mod size_max\<rparr>) of
           None \<Rightarrow> Exits 1
         | Some st' \<Rightarrow> grow_dup env qoffset (st'\<lparr>q := (dbuffer st', qoffset)\<rparr>))
      else Returns st)"
  by pat_completeness auto
termination
  by (relation "measure (\<lambda>(env, qoffset, st). doublings (dbuffer_size st))")
     (auto simp add: realloc_dbuffer_def split: if_splits intro: doublings_less)

declare grow_dup.simps [simp del]

text \<open>
  Storing bytes through \<open>q\<close> and advancing it (\<^verbatim>\<open>*q++ = ...\<close>). The store is a fault
  when \<open>q\<close> is null or dangling, or when it does not fit below \<open>dbuffer_size\<close>.
\<close>

definition write_at :: "(nat \<Rightarrow> u8) \<Rightarrow> nat \<Rightarrow> u8 list \<Rightarrow> (nat \<Rightarrow> u8)" where
  "write_at m a bs = (\<lambda>k. if a \<le> k \<and> k < a + length bs then bs ! (k - a) else m k)"

definition store_q :: "enc_state \<Rightarrow> u8 list \<Rightarrow> enc_state outcome" where
  "store_q st bs =
     (if dbuffer st = 0 \<or> fst (q st) \<noteq> dbuffer st then Faults
      else if dbuffer_size st < snd (q st) + length bs then Faults
      else Returns (st\<lparr>dmem := write_at (dmem st) (snd (q st)) bs,
                        q := (fst (q st), snd (q st) + length bs)\<rparr>))"

text \<open>The bytes of one code unit holding the low bits of \<open>c\<close>, least significant first.\<close>

fun unit_bytes :: "test_mode \<Rightarrow> u32 \<Rightarrow> u8 list" where
  "unit_bytes PCRE8_MODE c = [ucast c]"
| "unit_bytes PCRE16_MODE c = [ucast c, ucast (drop_bit 8 c)]"
| "unit_bytes PCRE32_MODE c =
     [ucast c, ucast (drop_bit 8 c), ucast (drop_bit 16 c), ucast (drop_bit 24 c)]"

text \<open>
  \<^verbatim>\<open>memcpy(CAST8VAR(q), start_dup, duplen);\<close> reads through \<open>start_dup\<close> and stores
  through \<open>q\<close>; \<open>q\<close> is not advanced.
\<close>

definition memcpy_dup :: "enc_state \<Rightarrow> ptr \<Rightarrow> nat \<Rightarrow> enc_state outcome" where
  "memcpy_dup st src n =
     (if dbuffer st = 0 \<or> fst (q st) \<noteq> dbuffer st \<or> fst src \<noteq> dbuffer st then Faults
      else if dbuffer_size st < snd (q st) + n \<or> dbuffer_size st < snd src + n then Faults
      else Returns (st\<lparr>dmem :=
              (\<lambda>k. if snd (q st) \<le> k \<and> k < snd (q st) + n
                   then dmem st (snd src + (k - snd (q st))) else dmem st k)\<rparr>))"

text \<open>
  \<^verbatim>\<open>while (i-- > 0) { memcpy(CAST8VAR(q), start_dup, duplen);
                      SETPLUS(q, duplen/code_unit_size); }\<close>
  with the number of rounds as first argument.
\<close>

fun copy_dup :: "nat \<Rightarrow> test_mode \<Rightarrow> ptr \<Rightarrow> nat \<Rightarrow> enc_state \<Rightarrow> enc_state outcome" where
  "copy_dup 0 mode src duplen st = Returns st"
| "copy_dup (Suc k) mode src duplen st =
     (case memcpy_dup st src duplen of
        Returns st' \<Rightarrow>
          copy_dup k mode src duplen
            (st'\<lparr>q := (fst (q st'),
                        snd (q st') + (duplen div code_unit_size mode) * code_unit_size mode)\<rparr>)
      | Exits n \<Rightarrow> Exits n
      | Faults \<Rightarrow> Faults)"

text \<open>Reading \<open>*p\<close> and stepping \<open>p\<close> on a zero-terminated string held as a list.\<close>

definition peek :: "u8 list \<Rightarrow> u8" where
  "peek p = byte_at p 0"

text \<open>\<^verbatim>\<open>while (isdigit(*p)) i = i * 10 + *p++ - '0';\<close> with \<open>int\<close> as 32 bits that wrap.\<close>

fun repeat_count :: "u32 \<Rightarrow> u8 list \<Rightarrow> u32 \<times> u8 list" where
  "repeat_count i [] = (i, [])"
| "repeat_count i (d # p) =
     (if isdigit_c d then repeat_count (i * 10 + ucast d - 48) p else (i, d # p))"

text \<open>
  \<^verbatim>\<open>while (i++ < 2 && isdigit(*p) && *p != '8' && *p != '9') c = c * 8 + *p++ - '0';\<close>
\<close>

definition isoctal_c :: "u8 \<Rightarrow> bool" where
  "isoctal_c d = (isdigit_c d \<and> d \<noteq> 56 \<and> d \<noteq> 57)"

fun octal_short :: "nat \<Rightarrow> u32 \<Rightarrow> u8 list \<Rightarrow> u32 \<times> u8 list" where
  "octal_short i c [] = (c, [])"
| "octal_short i c (d # p) =
     (if i < 2 \<and> isoctal_c d then octal_short (i + 1) (c * 8 + ucast d - 48) p
      else (c, d # p))"

text \<open>
  \<^verbatim>\<open>for (pt++; isdigit(*pt) && *pt != '8' && *pt != '9'; pt++)
    { if (++i == 12) fprintf(outfile, "** Too many octal digits ..."); 
      else c = c * 8 + *pt - '0'; }\<close>
  The result is \<open>pt\<close>, \<open>i\<close>, \<open>c\<close> and the messages printed.
\<close>

fun octal_brace :: "u8 list \<Rightarrow> nat \<Rightarrow> u32 \<Rightarrow> diag list \<Rightarrow> u8 list \<times> nat \<times> u32 \<times> diag list" where
  "octal_brace [] i c out = ([], i, c, out)"
| "octal_brace (d # pt) i c out =
     (if isoctal_c d then
        (if i + 1 = 12 then octal_brace pt (i + 1) c (out @ [Too_many_octal_digits])
         else octal_brace pt (i + 1) (c * 8 + ucast d - 48) out)
      else (d # pt, i, c, out))"

text \<open>\<^verbatim>\<open>tolower(*pt) - ((isdigit(*pt))? '0' : 'a' - 10)\<close>\<close>

definition hex_value :: "u8 \<Rightarrow> u32" where
  "hex_value d = ucast (tolower_c d) - (if isdigit_c d then 48 else 97 - 10)"

text \<open>
  \<^verbatim>\<open>for (pt++; isxdigit(*pt); pt++)
    { if (++i == 9) fprintf(outfile, "** Too many hex digits ...");
      else c = c * 16 + tolower(*pt) - ((isdigit(*pt))? '0' : 'a' - 10); }\<close>
\<close>

fun hex_brace :: "u8 list \<Rightarrow> nat \<Rightarrow> u32 \<Rightarrow> diag list \<Rightarrow> u8 list \<times> nat \<times> u32 \<times> diag list" where
  "hex_brace [] i c out = ([], i, c, out)"
| "hex_brace (d # pt) i c out =
     (if isxdigit_c d then
        (if i + 1 = 9 then hex_brace pt (i + 1) c (out @ [Too_many_hex_digits])
         else hex_brace pt (i + 1) (c * 16 + hex_value d) out)
      else (d # pt, i, c, out))"

text \<open>
  \<^verbatim>\<open>while (i++ < 2 && isxdigit(*p)) { c = c * 16 + tolower(*p) - ...; p++; }\<close>
\<close>

fun hex_short :: "nat \<Rightarrow> u32 \<Rightarrow> u8 list \<Rightarrow> u32 \<times> u8 list" where
  "hex_short i c [] = (c, [])"
| "hex_short i c (d # p) =
     (if i < 2 \<and> isxdigit_c d then hex_short (i + 1) (c * 16 + hex_value d) p
      else (c, d # p))"

text \<open>
  Modelled from the spec: the macros \<open>HASUTF8EXTRALEN\<close> and \<open>GETUTF8INC\<close> come from
  \<open>pcre2_internal.h\<close>, which is not part of the sources at hand. In UTF mode the data line
  has passed the validation pass, and the macros read the multi-byte character that the
  lead byte \<open>c\<close> begins, which is the character \<open>utf82ord\<close> decodes there; \<open>p\<close> is left
  behind its last byte.
\<close>

definition HASUTF8EXTRALEN :: "u8 \<Rightarrow> bool" where
  "HASUTF8EXTRALEN c = (c \<ge> 0xc0)"

definition GETUTF8INC :: "u8 \<Rightarrow> u8 list \<Rightarrow> u32 \<times> u8 list" where
  "GETUTF8INC c p =
     (case utf82ord (c # p) 0 of (n, v) \<Rightarrow>
        if n > 0 then (v, drop (nat n - 1) p) else (ucast c, p))"

text \<open>
  One pass of the scanning loop goes on with the next character (\<open>Go\<close>), returns \<open>PR_OK\<close>
  from \<open>process_data\<close> after a message (\<open>Halt\<close>), or jumps to \<open>ENDSTRING\<close> with the
  modifier text that follows \<open>\=\<close> (\<open>Mods\<close>), unless it ends the process or faults.
\<close>

datatype step =
    Go enc_state "u8 list"
  | Halt enc_state
  | Mods enc_state "u8 list"

definition say :: "diag \<Rightarrow> enc_state \<Rightarrow> enc_state" where
  "say d st = st\<lparr>outfile := outfile st @ [d]\<rparr>"

definition stored :: "enc_state outcome \<Rightarrow> u8 list \<Rightarrow> step outcome" where
  "stored r p =
     (case r of Returns st \<Rightarrow> Returns (Go st p) | Exits n \<Rightarrow> Exits n | Faults \<Rightarrow> Faults)"

text \<open>
  The width-specific commit of a character value \<open>c\<close> that closes the loop body
  (\<^verbatim>\<open>if (test_mode == PCRE8_MODE) { if (utf) { ... q8 += ord2utf8(c, q8); } ... }\<close>).
\<close>

definition commit :: "test_mode \<Rightarrow> bool \<Rightarrow> enc_state \<Rightarrow> u32 \<Rightarrow> u8 list \<Rightarrow> step outcome" where
  "commit mode utf st c p =
     (case mode of
        PCRE8_MODE \<Rightarrow>
          if utf then
            (if c > 0x7fffffff then Returns (Halt (say (Greater_than_7fffffff c) st))
             else stored (store_q st (snd (ord2utf8 c))) p)
          else
            stored (store_q (if c > 0xff then say (Greater_than_255 c) st else st)
                      (unit_bytes PCRE8_MODE c)) p
      | PCRE16_MODE \<Rightarrow>
          if utf then
            (if c > 0x10ffff then Returns (Halt (say (Greater_than_10ffff c) st))
             else if c \<ge> 0x10000 then
               stored (store_q st
                        (unit_bytes PCRE16_MODE (0xD800 OR drop_bit 10 (c - 0x10000)) @
                         unit_bytes PCRE16_MODE (0xDC00 OR ((c - 0x10000) AND 0x3ff)))) p
             else stored (store_q st (unit_bytes PCRE16_MODE c)) p)
          else
            stored (store_q (if c > 0xffff then say (Greater_than_ffff c) st else st)
                      (unit_bytes PCRE16_MODE c)) p
      | PCRE32_MODE \<Rightarrow> stored (store_q st (unit_bytes PCRE32_MODE c)) p)"

text \<open>
  The branch \<^verbatim>\<open>if (c == ']' && start_dup != NULL)\<close>; \<open>p\<close> is the text after the
  bracket and \<open>sd\<close> the value of \<open>start_dup\<close>. The repeat count is an \<open>int\<close>; in
  \<^verbatim>\<open>needlen += duplen * (i - 1)\<close> it is converted to \<open>size_t\<close>, and the sum wraps.
  Subtracting pointers into different allocations is a fault.
\<close>

definition close_dup :: "heap_env \<Rightarrow> test_mode \<Rightarrow> enc_state \<Rightarrow> ptr \<Rightarrow> u8 list \<Rightarrow> step outcome" where
  "close_dup env mode st sd p =
     (let qoffset = snd (q st) in
      if peek p \<noteq> 123 then Returns (Halt (say Expected_open_brace st))
      else
        (case repeat_count 0 (tl p) of (i, p') \<Rightarrow>
           if peek p' \<noteq> 125 then Returns (Halt (say Expected_close_brace st))
           else if i = 0 then Returns (Halt (say Zero_repeat_not_allowed st))
           else if fst sd \<noteq> fst (q st) then Faults
           else
             (let i1 = i - 1;
                  duplen = (snd (q st) + size_max - snd sd) mod size_max;
                  st1 = st\<lparr>needlen :=
                          (needlen st + duplen * (nat (sint (i1 - 1) mod int size_max)))
                            mod size_max\<rparr>
              in case grow_dup env qoffset st1 of
                   Returns st2 \<Rightarrow>
                     (case copy_dup (nat (sint i1)) mode sd duplen st2 of
                        Returns st3 \<Rightarrow> Returns (Go (st3\<lparr>start_dup := None\<rparr>) (tl p'))
                      | Exits n \<Rightarrow> Exits n
                      | Faults \<Rightarrow> Faults)
                 | Exits n \<Rightarrow> Exits n
                 | Faults \<Rightarrow> Faults)))"

text \<open>
  The escapes: \<open>e\<close> is the character after the backslash, \<open>p\<close> the text after \<open>e\<close>, and
  \<open>p0\<close> the text from \<open>e\<close> on (where \<open>p\<close> stands again after \<^verbatim>\<open>p--\<close>).
\<close>

definition escape :: "test_mode \<Rightarrow> bool \<Rightarrow> enc_state \<Rightarrow> u8 \<Rightarrow> u8 list \<Rightarrow> u8 list \<Rightarrow> step outcome" where
  "escape mode utf st e p p0 =
     (if e = 92 then commit mode utf st 92 p
      else if e = 97 then commit mode utf st 7 p
      else if e = 98 then commit mode utf st 8 p
      else if e = 101 then commit mode utf st 27 p
      else if e = 102 then commit mode utf st 12 p
      else if e = 110 then commit mode utf st 10 p
      else if e = 114 then commit mode utf st 13 p
      else if e = 116 then commit mode utf st 9 p
      else if e = 118 then commit mode utf st 11 p
      else if 48 \<le> e \<and> e \<le> 55 then
        (case octal_short 0 (ucast e - 48) p of (c, p') \<Rightarrow> commit mode utf st c p')
      else if e = 111 then
        (if peek p = 123 then
           (case octal_brace (tl p) 0 0 [] of (pt, i, c, out) \<Rightarrow>
              if peek pt = 125 then commit mode utf (st\<lparr>outfile := outfile st @ out\<rparr>) c (tl pt)
              else commit mode utf
                     (st\<lparr>outfile := outfile st @ out @ [Missing_close_brace_octal]\<rparr>) c p)
         else commit mode utf st (ucast e) p)
      else if e = 120 then
        (case (if peek p = 123 then hex_brace (tl p) 0 0 [] else (p, 0, 0, [])) of
           (pt, i, c, out) \<Rightarrow>
             if peek p = 123 \<and> peek pt = 125
             then commit mode utf (st\<lparr>outfile := outfile st @ out\<rparr>) c (tl pt)
             else
               (case hex_short i 0 p of (c', p') \<Rightarrow>
                  if utf \<and> mode = PCRE8_MODE
                  then stored (store_q (st\<lparr>outfile := outfile st @ out\<rparr>)
                                 (unit_bytes PCRE8_MODE c')) p'
                  else commit mode utf (st\<lparr>outfile := outfile st @ out\<rparr>) c' p'))
      else if e = 0 then Returns (Go st p0)
      else if e = 61 then Returns (Mods st p)
      else if e = 91 then
        (if start_dup st \<noteq> None then Returns (Halt (say Nested_duplication st))
         else Returns (Go (st\<lparr>start_dup := Some (q st)\<rparr>) p))
      else Returns (Halt (say (Unrecognized_escape e) st)))"

text \<open>The body of \<^verbatim>\<open>while ((c = *p++) != 0)\<close> for a character \<open>c\<close> that is not zero.\<close>

definition plain :: "test_mode \<Rightarrow> bool \<Rightarrow> enc_state \<Rightarrow> u8 \<Rightarrow> u8 list \<Rightarrow> step outcome" where
  "plain mode utf st c p =
     (if c \<noteq> 92 then
        (if utf \<and> HASUTF8EXTRALEN c
         then (case GETUTF8INC c p of (c', p') \<Rightarrow> commit mode utf st c' p')
         else commit mode utf st (ucast c) p)
      else escape mode utf st (peek p) (tl p) p)"

definition enc_step :: "heap_env \<Rightarrow> test_mode \<Rightarrow> bool \<Rightarrow> enc_state \<Rightarrow> u8 \<Rightarrow> u8 list \<Rightarrow> step outcome" where
  "enc_step env mode utf st c p =
     (case start_dup st of
        Some sd \<Rightarrow> if c = 93 then close_dup env mode st sd p else plain mode utf st c p
      | None \<Rightarrow> plain mode utf st c p)"

text \<open>Every pass leaves \<open>p\<close> at a suffix of the text it was given.\<close>

lemma repeat_count_length: "repeat_count i p = (j, p') \<Longrightarrow> length p' \<le> length p"
  by (induction p arbitrary: i) (auto split: if_splits simp add: le_SucI)

lemma octal_short_length: "octal_short i c p = (c', p') \<Longrightarrow> length p' \<le> length p"
  by (induction p arbitrary: i c) (auto split: if_splits simp add: le_SucI)

lemma hex_short_length: "hex_short i c p = (c', p') \<Longrightarrow> length p' \<le> length p"
  by (induction p arbitrary: i c) (auto split: if_splits simp add: le_SucI)

lemma octal_brace_length: "octal_brace p i c out = (p', r) \<Longrightarrow> length p' \<le> length p"
  by (induction p arbitrary: i c out) (auto split: if_splits simp add: le_SucI)

lemma hex_brace_length: "hex_brace p i c out = (p', r) \<Longrightarrow> length p' \<le> length p"
  by (induction p arbitrary: i c out) (auto split: if_splits simp add: le_SucI)

lemma GETUTF8INC_length: "GETUTF8INC c p = (c', p') \<Longrightarrow> length p' \<le> length p"
  by (auto simp add: GETUTF8INC_def split: prod.splits if_splits)

lemma stored_Go: "stored r p = Returns (Go st' p') \<Longrightarrow> p' = p"
  by (auto simp add: stored_def split: outcome.splits)

lemma commit_Go: "commit mode utf st c p = Returns (Go st' p') \<Longrightarrow> p' = p"
  by (auto simp add: commit_def split: test_mode.splits if_splits dest: stored_Go)

lemma close_dup_Go:
  assumes "close_dup env mode st sd p = Returns (Go st' p')"
  shows "length p' \<le> length p"
proof -
  obtain i p1 where rc: "repeat_count 0 (tl p) = (i, p1)"
    by (cases "repeat_count 0 (tl p)")
  have "p' = tl p1"
    using assms rc by (auto simp add: close_dup_def Let_def split: if_splits outcome.splits)
  moreover have "length p1 \<le> length (tl p)"
    using rc by (rule repeat_count_length)
  ultimately show ?thesis by simp
qed

lemma escape_Go:
  assumes "escape mode utf st e p p0 = Returns (Go st' p')" and "length p \<le> length p0"
  shows "length p' \<le> length p0"
proof -
  have tl_le: "\<And>xs :: u8 list. length xs \<le> length p \<Longrightarrow> length (tl xs) \<le> length p0"
    using assms(2) by simp
  have le: "\<And>xs :: u8 list. length xs \<le> length p \<Longrightarrow> length xs \<le> length p0"
    using assms(2) by simp
  show ?thesis
    using assms(1)
    apply (simp add: escape_def split: if_splits prod.splits)
    apply (auto dest!: commit_Go stored_Go octal_short_length hex_short_length
        octal_brace_length hex_brace_length intro: tl_le le simp add: assms(2))
    done
qed

lemma enc_step_Go:
  assumes "enc_step env mode utf st c p = Returns (Go st' p')"
  shows "length p' \<le> length p"
proof -
  have pl: "plain mode utf st c p = Returns (Go st' p') \<Longrightarrow> length p' \<le> length p"
    by (auto simp add: plain_def split: if_splits prod.splits
        dest!: commit_Go GETUTF8INC_length dest: escape_Go)
  show ?thesis
    using assms pl by (auto simp add: enc_step_def split: option.splits if_splits dest: close_dup_Go)
qed

text \<open>
  The scanning loop \<^verbatim>\<open>while ((c = *p++) != 0) { ... }\<close> up to \<open>ENDSTRING\<close>. It ends
  with \<open>process_data\<close> having returned \<open>PR_OK\<close>, or at \<open>ENDSTRING\<close> with the modifier text
  when the data ended with \<open>\=\<close>.
\<close>

datatype scan = PR_OK_returned enc_state | ENDSTRING enc_state "u8 list option"

function encode_loop :: "heap_env \<Rightarrow> test_mode \<Rightarrow> bool \<Rightarrow> enc_state \<Rightarrow> u8 list \<Rightarrow> scan outcome" where
  "encode_loop env mode utf st [] = Returns (ENDSTRING st None)"
| "encode_loop env mode utf st (c # p) =
     (if c = 0 then Returns (ENDSTRING st None)
      else
        (case enc_step env mode utf st c p of
           Returns (Go st' p') \<Rightarrow> encode_loop env mode utf st' p'
         | Returns (Halt st') \<Rightarrow> Returns (PR_OK_returned st')
         | Returns (Mods st' m) \<Rightarrow> Returns (ENDSTRING st' (Some m))
         | Exits n \<Rightarrow> Exits n
         | Faults \<Rightarrow> Faults))"
  by pat_completeness auto
termination
  by (relation "measure (\<lambda>(env, mode, utf, st, p). length p)")
     (auto dest: enc_step_Go simp add: less_Suc_eq_le)

declare encode_loop.simps [simp del]

text \<open>
  \<^verbatim>\<open>for (q = p; n > 0 && *q; q += n) n = utf82ord(q, &cc);\<close>
  with the final \<open>n\<close> as result.
\<close>

function utf8_scan :: "u8 list \<Rightarrow> int \<Rightarrow> int" where
  "utf8_scan qs n =
     (if n > 0 \<and> peek qs \<noteq> 0
      then (let n' = fst (utf82ord qs 0) in utf8_scan (drop (nat n') qs) n')
      else n)"
  by pat_completeness auto
termination
  by (relation "measure (\<lambda>(qs, n). 2 * length qs + (if n > 0 then 1 else 0))")
     (auto simp add: peek_def byte_at_def split: if_splits)

declare utf8_scan.simps [simp del]

text \<open>
  What \<open>process_data\<close> has when the data line is encoded: it has returned \<open>PR_OK\<close>, or it
  holds the subject at \<open>pp\<close> with its length in bytes and in code units, and the
  modifier text that follows.
\<close>

datatype encoded =
    PR_OK enc_state
  | Subject enc_state ptr nat nat "u8 list option"

text \<open>
  From \<open>ENDSTRING\<close> on: the terminating zero, the two lengths, and the move of the
  subject to the end of the buffer
  (\<^verbatim>\<open>pp = memmove(pp + dbuffer_size - len - c, pp, len + c);\<close>, where \<open>c\<close> is 1 under the
  POSIX interface and 0 otherwise).
\<close>

definition endstring :: "test_mode \<Rightarrow> bool \<Rightarrow> enc_state \<Rightarrow> u8 list option \<Rightarrow> encoded outcome" where
  "endstring mode posix st mods =
     (let cus = code_unit_size mode in
      if dbuffer st = 0 \<or> fst (q st) \<noteq> dbuffer st then Faults
      else if dbuffer_size st < snd (q st) + cus then Faults
      else
        (let m = write_at (dmem st) (snd (q st)) (replicate cus 0);
             len = snd (q st);
             ulen = len div cus;
             c = (if cus * (if posix then 1 else 0) \<noteq> 0 then 1 else 0);
             dst = dbuffer_size st - len - c;
             m' = (\<lambda>k. if dst \<le> k \<and> k < dst + len + c then m (k - dst) else m k)
         in Returns (Subject (st\<lparr>dmem := m'\<rparr>) (dbuffer st, dst) len ulen mods)))"

text \<open>\<^verbatim>\<open>len = strlen((const char *)buffer); while (len > 0 && isspace(buffer[len-1])) len--;\<close>\<close>

definition trimmed :: "u8 list \<Rightarrow> u8 list" where
  "trimmed buffer = rev (dropWhile isspace_c (rev (takeWhile (\<lambda>b. b \<noteq> 0) buffer)))"

text \<open>
  The encoding part of \<open>process_data\<close>, from the scan initialisation to the move of the
  subject. \<open>posix\<close> is \<^verbatim>\<open>(pat_patctl.control & CTL_POSIX) != 0\<close> and \<open>pattern_utf\<close> is
  \<^verbatim>\<open>(FLD(compiled_code, compile_options) & PCRE2_UTF) != 0\<close>.
\<close>

definition encode_data ::
    "heap_env \<Rightarrow> test_mode \<Rightarrow> bool \<Rightarrow> bool \<Rightarrow> enc_state \<Rightarrow> u8 list \<Rightarrow> encoded outcome" where
  "encode_data env mode posix pattern_utf st0 buffer =
     (let utf = (\<not> posix \<and> pattern_utf);
          st = st0\<lparr>start_dup := None\<rparr>;
          line = trimmed buffer;
          len = length line;
          p = dropWhile isspace_c line
      in if utf \<and> utf8_scan p 1 \<le> 0 then Returns (PR_OK (say Invalid_UTF8_input st))
         else
           (case grow_dbuffer env (st\<lparr>needlen := (len * code_unit_size mode) mod size_max\<rparr>) of
              Returns st1 \<Rightarrow>
                (case encode_loop env mode utf (st1\<lparr>q := (dbuffer st1, 0)\<rparr>) p of
                   Returns (PR_OK_returned st2) \<Rightarrow> Returns (PR_OK st2)
                 | Returns (ENDSTRING st2 mods) \<Rightarrow> endstring mode posix st2 mods
                 | Exits n \<Rightarrow> Exits n
                 | Faults \<Rightarrow> Faults)
            | Exits n \<Rightarrow> Exits n
            | Faults \<Rightarrow> Faults))"

text \<open>The state in which the program starts: no buffer yet, \<open>dbuffer_size = 1u << 14\<close>.\<close>

definition initial_state :: enc_state where
  "initial_state =
     \<lparr>dbuffer = 0, dbuffer_size = 2 ^ 14, dmem = (\<lambda>k. 0), q = (0, 0), start_dup = None,
      needlen = 0, outfile = []\<rparr>"

text \<open>The bytes of the subject that \<open>process_data\<close> hands to the matcher.\<close>

definition subject_bytes :: "encoded \<Rightarrow> u8 list" where
  "subject_bytes e =
     (case e of
        PR_OK st \<Rightarrow> []
      | Subject st pp len ulen mods \<Rightarrow> map (\<lambda>k. dmem st (snd pp + k)) [0..<len])"

text \<open>A line of ASCII text as bytes.\<close>

definition ascii :: "string \<Rightarrow> u8 list" where
  "ascii s = map of_char s"

text \<open>
  Two heaps for the examples: in both every allocation succeeds; in the first
  \<open>realloc\<close> always moves the allocation, in the second it always extends it in place.
\<close>

definition moving_heap :: heap_env where
  "moving_heap = \<lparr>realloc_ok = (\<lambda>n. True), realloc_moves = (\<lambda>n. True)\<rparr>"

definition fixed_heap :: heap_env where
  "fixed_heap = \<lparr>realloc_ok = (\<lambda>n. True), realloc_moves = (\<lambda>n. False)\<rparr>"

text \<open>What can be seen of the outcome: the messages printed, and the subject.\<close>

datatype view =
    Seen_PR_OK "diag list"
  | Seen_Subject "diag list" "u8 list" nat nat "u8 list option"
  | Seen_Faults
  | Seen_Exits int

definition view :: "encoded outcome \<Rightarrow> view" where
  "view r =
     (case r of
        Returns (PR_OK st) \<Rightarrow> Seen_PR_OK (outfile st)
      | Returns (Subject st pp len ulen mods) \<Rightarrow>
          Seen_Subject (outfile st) (subject_bytes (Subject st pp len ulen mods)) len ulen mods
      | Faults \<Rightarrow> Seen_Faults
      | Exits n \<Rightarrow> Seen_Exits n)"


definition block :: "enc_state \<Rightarrow> ptr \<Rightarrow> u8 list" where
  "block st sd = map (dmem st) [snd sd..<snd (q st)]"

section \<open>The modifiers\<close>

subsection \<open>The tables\<close>

text \<open>The modifier types and applicabilities (one \<open>enum\<close> in the source).\<close>

datatype modkind =
  MOD_CTC | MOD_CTM | MOD_PAT | MOD_DAT | MOD_PD | MOD_CTL | MOD_BSR | MOD_IN2 | MOD_INT
  | MOD_NL | MOD_NN | MOD_OPT | MOD_STR

text \<open>The control bits.\<close>

definition CTL_AFTERTEXT :: u32 where "CTL_AFTERTEXT = 0x00000001"
definition CTL_ALLAFTERTEXT :: u32 where "CTL_ALLAFTERTEXT = 0x00000002"
definition CTL_ALLCAPTURES :: u32 where "CTL_ALLCAPTURES = 0x00000004"
definition CTL_ALTGLOBAL :: u32 where "CTL_ALTGLOBAL = 0x00000008"
definition CTL_BYTECODE :: u32 where "CTL_BYTECODE = 0x00000010"
definition CTL_CALLOUT_CAPTURE :: u32 where "CTL_CALLOUT_CAPTURE = 0x00000020"
definition CTL_CALLOUT_NONE :: u32 where "CTL_CALLOUT_NONE = 0x00000040"
definition CTL_DFA :: u32 where "CTL_DFA = 0x00000080"
definition CTL_FLIPBYTES :: u32 where "CTL_FLIPBYTES = 0x00000100"
definition CTL_FULLBYTECODE :: u32 where "CTL_FULLBYTECODE = 0x00000200"
definition CTL_GETALL :: u32 where "CTL_GETALL = 0x00000400"
definition CTL_GLOBAL :: u32 where "CTL_GLOBAL = 0x00000800"
definition CTL_INFO :: u32 where "CTL_INFO = 0x00001000"
definition CTL_JITVERIFY :: u32 where "CTL_JITVERIFY = 0x00002000"
definition CTL_LIMITS :: u32 where "CTL_LIMITS = 0x00004000"
definition CTL_MARK :: u32 where "CTL_MARK = 0x00008000"
definition CTL_MEMORY :: u32 where "CTL_MEMORY = 0x00010000"
definition CTL_PERLCOMPAT :: u32 where "CTL_PERLCOMPAT = 0x00020000"
definition CTL_POSIX :: u32 where "CTL_POSIX = 0x00040000"

definition CTL_DEBUG :: u32 where
  "CTL_DEBUG = CTL_FULLBYTECODE OR CTL_INFO"

definition CTL_ANYGLOB :: u32 where
  "CTL_ANYGLOB = CTL_ALTGLOBAL OR CTL_GLOBAL"

text \<open>
  The \<open>value\<close> of an entry of \<open>modlist\<close>: a number, or one of the option bits
  \<open>PCRE2_...\<close>, which are defined in a header outside the sources and are kept by name
  (the functions below take their values as the parameter \<open>K\<close>), or, for \<open>MOD_NN\<close>,
  the offset of a second field.

  The \<open>offset\<close> of an entry: \<open>PO(name)\<close> and \<open>DO(name)\<close> are byte offsets into \<open>patctl\<close>
  and \<open>datctl\<close>, whose members are laid out without padding (\<open>options\<close> at 0 and
  \<open>control\<close> at 4 in both, so that \<open>PO(control)\<close> applied to a \<open>datctl\<close> is its
  \<open>control\<close>); \<open>CO(name)\<close> and \<open>MO(name)\<close> are offsets into the contexts, whose layout
  is outside the sources, and are kept by name.
\<close>

datatype modvalue = Number u32 | PCRE2 string | Second nat

datatype fieldoff = Byte nat | CO string | MO string

definition PO_options :: fieldoff where "PO_options = Byte 0"
definition PO_control :: fieldoff where "PO_control = Byte 4"
definition PO_jit :: fieldoff where "PO_jit = Byte 8"
definition PO_stackguard_test :: fieldoff where "PO_stackguard_test = Byte 12"
definition PO_tables_id :: fieldoff where "PO_tables_id = Byte 16"
definition PO_locale :: fieldoff where "PO_locale = Byte 20"
definition PO_save :: fieldoff where "PO_save = Byte 52"

definition DO_options :: fieldoff where "DO_options = Byte 0"
definition DO_control :: fieldoff where "DO_control = Byte 4"
definition DO_cfail :: fieldoff where "DO_cfail = Byte 8"
definition DO_copy_numbers :: fieldoff where "DO_copy_numbers = Byte 16"
definition DO_get_numbers :: fieldoff where "DO_get_numbers = Byte 56"
definition DO_jitstack :: fieldoff where "DO_jitstack = Byte 96"
definition DO_oveccount :: fieldoff where "DO_oveccount = Byte 100"
definition DO_offset :: fieldoff where "DO_offset = Byte 104"
definition DO_copy_names :: fieldoff where "DO_copy_names = Byte 108"
definition DO_get_names :: fieldoff where "DO_get_names = Byte 172"

text \<open>An entry of \<open>modlist\<close>: \<open>name\<close>, \<open>which\<close>, \<open>type\<close>, \<open>value\<close>, \<open>offset\<close>.\<close>

type_synonym modstruct = "string \<times> modkind \<times> modkind \<times> modvalue \<times> fieldoff"

definition mod_name :: "modstruct \<Rightarrow> string" where
  "mod_name m = fst m"

definition mod_which :: "modstruct \<Rightarrow> modkind" where
  "mod_which m = fst (snd m)"

definition mod_type :: "modstruct \<Rightarrow> modkind" where
  "mod_type m = fst (snd (snd m))"

definition mod_value :: "modstruct \<Rightarrow> modvalue" where
  "mod_value m = fst (snd (snd (snd m)))"

definition mod_offset :: "modstruct \<Rightarrow> fieldoff" where
  "mod_offset m = snd (snd (snd (snd m)))"

definition modlist :: "modstruct list" where
  "modlist =
   [(''aftertext'',           MOD_PD,  MOD_CTL, Number CTL_AFTERTEXT,             PO_control),
    (''allaftertext'',        MOD_PD,  MOD_CTL, Number CTL_ALLAFTERTEXT,          PO_control),
    (''allcaptures'',         MOD_PD,  MOD_CTL, Number CTL_ALLCAPTURES,           PO_control),
    (''allow_empty_class'',   MOD_PAT, MOD_OPT, PCRE2 ''PCRE2_ALLOW_EMPTY_CLASS'',  PO_options),
    (''alt_bsux'',            MOD_PAT, MOD_OPT, PCRE2 ''PCRE2_ALT_BSUX'',           PO_options),
    (''altglobal'',           MOD_PD,  MOD_CTL, Number CTL_ALTGLOBAL,             PO_control),
    (''anchored'',            MOD_PD,  MOD_OPT, PCRE2 ''PCRE2_ANCHORED'',           PO_options),
    (''auto_callout'',        MOD_PAT, MOD_OPT, PCRE2 ''PCRE2_AUTO_CALLOUT'',       PO_options),
    (''bsr'',                 MOD_CTC, MOD_BSR, Number 0,                         CO ''bsr_convention''),
    (''bytecode'',            MOD_PAT, MOD_CTL, Number CTL_BYTECODE,              PO_control),
    (''callout_capture'',     MOD_DAT, MOD_CTL, Number CTL_CALLOUT_CAPTURE,       DO_control),
    (''callout_fail'',        MOD_DAT, MOD_IN2, Number 0,                         DO_cfail),
    (''callout_none'',        MOD_DAT, MOD_CTL, Number CTL_CALLOUT_NONE,          DO_control),
    (''caseless'',            MOD_PAT, MOD_OPT, PCRE2 ''PCRE2_CASELESS'',           PO_options),
    (''copy'',                MOD_DAT, MOD_NN,  Second 16,                        DO_copy_names),
    (''debug'',               MOD_PAT, MOD_CTL, Number CTL_DEBUG,                 PO_control),
    (''dfa'',                 MOD_DAT, MOD_CTL, Number CTL_DFA,                   DO_control),
    (''dfa_restart'',         MOD_DAT, MOD_OPT, PCRE2 ''PCRE2_DFA_RESTART'',        DO_options),
    (''dfa_shortest'',        MOD_DAT, MOD_OPT, PCRE2 ''PCRE2_DFA_SHORTEST'',       DO_options),
    (''dollar_endonly'',      MOD_PAT, MOD_OPT, PCRE2 ''PCRE2_DOLLAR_ENDONLY'',     PO_options),
    (''dotall'',              MOD_PAT, MOD_OPT, PCRE2 ''PCRE2_DOTALL'',             PO_options),
    (''dupnames'',            MOD_PAT, MOD_OPT, PCRE2 ''PCRE2_DUPNAMES'',           PO_options),
    (''extended'',            MOD_PAT, MOD_OPT, PCRE2 ''PCRE2_EXTENDED'',           PO_options),
    (''firstline'',           MOD_PAT, MOD_OPT, PCRE2 ''PCRE2_FIRSTLINE'',          PO_options),
    (''flipbytes'',           MOD_PAT, MOD_CTL, Number CTL_FLIPBYTES,             PO_control),
    (''fullbytecode'',        MOD_PAT, MOD_CTL, Number CTL_FULLBYTECODE,          PO_control),
    (''get'',                 MOD_DAT, MOD_NN,  Second 56,                        DO_get_names),
    (''getall'',              MOD_DAT, MOD_CTL, Number CTL_GETALL,                DO_control),
    (''global'',              MOD_PD,  MOD_CTL, Number CTL_GLOBAL,                PO_control),
    (''info'',                MOD_PAT, MOD_CTL, Number CTL_INFO,                  PO_control),
    (''jit'',                 MOD_PAT, MOD_INT, Number 1,                         PO_jit),
    (''jitstack'',            MOD_DAT, MOD_INT, Number 0,                         DO_jitstack),
    (''jitverify'',           MOD_PD,  MOD_CTL, Number CTL_JITVERIFY,             PO_control),
    (''limits'',              MOD_DAT, MOD_CTL, Number CTL_LIMITS,                DO_control),
    (''locale'',              MOD_PAT, MOD_STR, Number 0,                         PO_locale),
    (''mark'',                MOD_PD,  MOD_CTL, Number CTL_MARK,                  PO_control),
    (''match_limit'',         MOD_CTM, MOD_INT, Number 0,                         MO ''match_limit''),
    (''match_unset_backref'', MOD_PAT, MOD_OPT, PCRE2 ''PCRE2_MATCH_UNSET_BACKREF'', PO_options),
    (''memory'',              MOD_PD,  MOD_CTL, Number CTL_MEMORY,                PO_control),
    (''multiline'',           MOD_PAT, MOD_OPT, PCRE2 ''PCRE2_MULTILINE'',          PO_options),
    (''never_ucp'',           MOD_PAT, MOD_OPT, PCRE2 ''PCRE2_NEVER_UCP'',          PO_options),
    (''never_utf'',           MOD_PAT, MOD_OPT, PCRE2 ''PCRE2_NEVER_UTF'',          PO_options),
    (''newline'',             MOD_CTC, MOD_NL,  Number 0,                         CO ''newline_convention''),
    (''no_auto_capture'',     MOD_PAT, MOD_OPT, PCRE2 ''PCRE2_NO_AUTO_CAPTURE'',    PO_options),
    (''no_auto_possess'',     MOD_PAT, MOD_OPT, PCRE2 ''PCRE2_NO_AUTO_POSSESS'',    PO_options),
    (''no_start_optimize'',   MOD_PD,  MOD_OPT, PCRE2 ''PCRE2_NO_START_OPTIMIZE'',  PO_options),
    (''no_utf_check'',        MOD_PD,  MOD_OPT, PCRE2 ''PCRE2_NO_UTF_CHECK'',       PO_options),
    (''notbol'',              MOD_DAT, MOD_OPT, PCRE2 ''PCRE2_NOTBOL'',             DO_options),
    (''notempty'',            MOD_DAT, MOD_OPT, PCRE2 ''PCRE2_NOTEMPTY'',           DO_options),
    (''notempty_atstart'',    MOD_DAT, MOD_OPT, PCRE2 ''PCRE2_NOTEMPTY_ATSTART'',   DO_options),
    (''noteol'',              MOD_DAT, MOD_OPT, PCRE2 ''PCRE2_NOTEOL'',             DO_options),
    (''offset'',              MOD_DAT, MOD_INT, Number 0,                         DO_offset),
    (''ovector'',             MOD_DAT, MOD_INT, Number 0,                         DO_oveccount),
    (''parens_nest_limit'',   MOD_CTC, MOD_INT, Number 0,                         CO ''parens_nest_limit''),
    (''partial_hard'',        MOD_DAT, MOD_OPT, PCRE2 ''PCRE2_PARTIAL_HARD'',       DO_options),
    (''partial_soft'',        MOD_DAT, MOD_OPT, PCRE2 ''PCRE2_PARTIAL_SOFT'',       DO_options),
    (''perlcompat'',          MOD_PAT, MOD_CTL, Number CTL_PERLCOMPAT,            PO_control),
    (''posix'',               MOD_PAT, MOD_CTL, Number CTL_POSIX,                 PO_control),
    (''recursion_limit'',     MOD_CTM, MOD_INT, Number 0,                         MO ''recursion_limit''),
    (''save'',                MOD_PAT, MOD_STR, Number 0,                         PO_save),
    (''stackguard'',          MOD_PAT, MOD_INT, Number 0,                         PO_stackguard_test),
    (''tables'',              MOD_PAT, MOD_INT, Number 0,                         PO_tables_id),
    (''ucp'',                 MOD_PAT, MOD_OPT, PCRE2 ''PCRE2_UCP'',                PO_options),
    (''ungreedy'',            MOD_PAT, MOD_OPT, PCRE2 ''PCRE2_UNGREEDY'',           PO_options),
    (''utf'',                 MOD_PAT, MOD_OPT, PCRE2 ''PCRE2_UTF'',                PO_options)]"

definition MODLISTCOUNT :: nat where
  "MODLISTCOUNT = length modlist"

text \<open>
  The abbreviations: \<open>fullname\<close> and \<open>onechar\<close>; the third member, \<open>index\<close>, is
  written while the program runs and is part of the state below.
\<close>

definition c1modlist :: "(string \<times> u32) list" where
  "c1modlist =
   [(''bytecode'',     66),
    (''fullbytecode'', push_bit 8 66 OR 66),
    (''debug'',        68),
    (''info'',         73),
    (''partial_soft'', 80),
    (''partial_hard'', push_bit 8 80 OR 80),
    (''global'',       103),
    (''altglobal'',    push_bit 8 103 OR 103),
    (''caseless'',     105),
    (''multiline'',    109),
    (''dotall'',       115),
    (''extended'',     120)]"

definition C1MODLISTCOUNT :: nat where
  "C1MODLISTCOUNT = length c1modlist"

subsection \<open>\<open>scan_modifiers\<close>\<close>

text \<open>
  \<open>strncmp\<close> on texts that end with a NUL: the sign of the result is what is used.
\<close>

fun strncmp :: "u8 list \<Rightarrow> u8 list \<Rightarrow> nat \<Rightarrow> int" where
  "strncmp a b 0 = 0"
| "strncmp a b (Suc n) =
     (if peek a \<noteq> peek b then uint (peek a) - uint (peek b)
      else if peek a = 0 then 0
      else strncmp (tl a) (tl b) n)"

text \<open>
  The binary chop. \<open>len\<close> and \<open>mlen\<close> are \<open>unsigned int\<close>, and \<open>c = len - mlen\<close> is
  their difference modulo \<open>2\<^sup>3\<^sup>2\<close> read as an \<open>int\<close>; \<open>bot'\<close> and \<open>top'\<close>
  are the variables \<open>bot\<close> and \<open>top\<close>.
\<close>

function scan_loop :: "u8 list \<Rightarrow> nat \<Rightarrow> nat \<Rightarrow> nat \<Rightarrow> int" where
  "scan_loop p len bot' top' =
     (if top' > bot' then
        (let mid = (bot' + top') div 2;
             name = ascii (mod_name (modlist ! mid));
             mlen = length name;
             c = strncmp p name (if len < mlen then len else mlen)
         in if c = 0 \<and> len = mlen then int mid
            else
              (let c' = (if c = 0 then sint (of_nat len - of_nat mlen :: u32) else c)
               in if c' > 0 then scan_loop p len (mid + 1) top'
                  else scan_loop p len bot' mid))
      else - 1)"
  by pat_completeness auto

lemma chop_up: "bot' < top' \<Longrightarrow> top' - Suc ((bot' + top') div 2) < top' - (bot'::nat)"
  by arith

lemma chop_down: "bot' < top' \<Longrightarrow> (bot' + top') div 2 - bot' < top' - (bot'::nat)"
  by arith

termination scan_loop
  by (relation "measure (\<lambda>(p, len, bot', top'). top' - bot')")
     (auto simp add: chop_up chop_down)

declare scan_loop.simps [simp del]

definition scan_modifiers :: "u8 list \<Rightarrow> nat \<Rightarrow> int" where
  "scan_modifiers p len = scan_loop p len 0 MODLISTCOUNT"

subsection \<open>\<open>check_modifier\<close>\<close>

datatype ctx = CTX_PAT | CTX_DEFPAT | CTX_DAT | CTX_DEFDAT | CTX_DEFANY

text \<open>
  The blocks that a field pointer can point into: the four contexts, and the control
  blocks that \<open>pctl\<close> and \<open>dctl\<close> point to.
\<close>

datatype block =
  Default_pat_context | Pat_context | Default_dat_context | Dat_context | Pctl | Dctl

datatype modmsg =
    Name_not_valid_here string
  | Char_not_valid_here u32
  | Unrecognized_modifier "u8 list"
  | Single_character_modifiers_must_come_first
  | Unrecognized_modifier_in u8 "u8 list"
  | Internal_error string
  | Equals_expected string
  | Minus_not_valid string
  | Comma_expected string

text \<open>
  \<open>pctl\<close> and \<open>dctl\<close> say whether the pointers of these names are not \<open>NULL\<close>. The
  result is the field, as a block and an offset into it, or \<open>None\<close> for \<open>NULL\<close>, and the
  message that has been printed.
\<close>

definition check_modifier ::
  "modstruct \<Rightarrow> ctx \<Rightarrow> bool \<Rightarrow> bool \<Rightarrow> u32 \<Rightarrow> (block \<times> fieldoff) option \<times> modmsg list" where
  "check_modifier m ctx pctl dctl c =
     (let field =
        (case mod_which m of
           MOD_CTC \<Rightarrow>
             if ctx = CTX_DEFPAT \<or> ctx = CTX_DEFANY then Some Default_pat_context
             else if ctx = CTX_PAT then Some Pat_context else None
         | MOD_CTM \<Rightarrow>
             if ctx = CTX_DEFDAT \<or> ctx = CTX_DEFANY then Some Default_dat_context
             else if ctx = CTX_DAT then Some Dat_context else None
         | MOD_DAT \<Rightarrow> if dctl then Some Dctl else None
         | MOD_PAT \<Rightarrow> if pctl then Some Pctl else None
         | MOD_PD \<Rightarrow> if dctl then Some Dctl else if pctl then Some Pctl else None
         | _ \<Rightarrow> None)
      in case field of
           None \<Rightarrow>
             (None, [if c = 0 then Name_not_valid_here (mod_name m) else Char_not_valid_here c])
         | Some b \<Rightarrow> (Some (b, mod_offset m), []))"

subsection \<open>\<open>decode_modifiers\<close>\<close>

text \<open>
  The state: the 32-bit words of the blocks, the \<open>index\<close> members of \<open>c1modlist\<close>
  (all \<open>-1\<close> when the program starts), and what has been printed.
\<close>

record mstate =
  words :: "block \<Rightarrow> fieldoff \<Rightarrow> u32"
  c1index :: "int list"
  printed :: "modmsg list"

definition complain :: "modmsg list \<Rightarrow> mstate \<Rightarrow> mstate" where
  "complain ms st = st\<lparr>printed := printed st @ ms\<rparr>"

text \<open>The number that a \<open>value\<close> stands for, given the values \<open>K\<close> of the option bits.\<close>

fun bits :: "(string \<Rightarrow> u32) \<Rightarrow> modvalue \<Rightarrow> u32" where
  "bits K (Number n) = n"
| "bits K (PCRE2 name) = K name"
| "bits K (Second n) = of_nat n"

text \<open>\<^verbatim>\<open>*((uint32_t *)field) |= value\<close> and \<^verbatim>\<open>*((uint32_t *)field) &= ~value\<close>.\<close>

definition set_bits :: "block \<times> fieldoff \<Rightarrow> u32 \<Rightarrow> mstate \<Rightarrow> mstate" where
  "set_bits field v st =
     st\<lparr>words := (words st)(fst field := (words st (fst field))
            (snd field := words st (fst field) (snd field) OR v))\<rparr>"

definition clear_bits :: "block \<times> fieldoff \<Rightarrow> u32 \<Rightarrow> mstate \<Rightarrow> mstate" where
  "clear_bits field v st =
     st\<lparr>words := (words st)(fst field := (words st (fst field))
            (snd field := words st (fst field) (snd field) AND NOT v))\<rparr>"

text \<open>
  \<^verbatim>\<open>for (i = 0; i < C1MODLISTCOUNT; i++) if (cc == c1modlist[i].onechar) break;\<close>
\<close>

fun c1_search :: "u32 \<Rightarrow> (string \<times> u32) list \<Rightarrow> nat \<Rightarrow> nat" where
  "c1_search cc [] i = i"
| "c1_search cc (e # es) i = (if cc = snd e then i else c1_search cc es (i + 1))"

datatype modstep =
    Returned bool mstate
  | Has_data int mstate
  | Again bool mstate "u8 list"

text \<open>
  The loop over the abbreviations, \<^verbatim>\<open>for (cc = *p; cc != ',' && cc != '\n' && cc != 0;
  cc = *(++p))\<close>; \<open>mp\<close> is the text at the start of the loop. Whatever \<open>off\<close> is, the
  body ends with \<^verbatim>\<open>*((uint32_t *)field) |= modlist[index].value;\<close>. When the loop is
  left the outer loop goes on (\<open>Again\<close>).
\<close>

function abbreviations ::
  "(string \<Rightarrow> u32) \<Rightarrow> ctx \<Rightarrow> bool \<Rightarrow> bool \<Rightarrow> bool \<Rightarrow> u8 list \<Rightarrow> mstate \<Rightarrow> u8 list
   \<Rightarrow> modstep" where
  "abbreviations K ctx pctl dctl first mp st p =
     (let c = peek p in
      if c = 44 \<or> c = 10 \<or> c = 0 then Again first st p
      else
        (let doubled = (byte_at p 1 = c);
             cc = (if doubled then push_bit 8 (ucast c) OR ucast c else ucast c :: u32);
             p1 = (if doubled then tl p else p);
             i = c1_search cc c1modlist 0
         in if i \<ge> C1MODLISTCOUNT
            then Returned False
                   (complain [Unrecognized_modifier_in (peek p1)
                                (takeWhile (\<lambda>x. x \<noteq> 0 \<and> x \<noteq> 44 \<and> \<not> isspace_c x) mp)] st)
            else
              (let fullname = fst (c1modlist ! i);
                   index = (if c1index st ! i \<ge> 0 then c1index st ! i
                            else scan_modifiers (ascii fullname) (length fullname))
               in if index < 0
                  then Returned False (complain [Internal_error fullname] st)
                  else
                    (let st1 = st\<lparr>c1index := (c1index st)[i := index]\<rparr> in
                     case check_modifier (modlist ! nat index) ctx pctl dctl (ucast (peek p1)) of
                       (None, ms) \<Rightarrow> Returned False (complain ms st1)
                     | (Some field, ms) \<Rightarrow>
                         abbreviations K ctx pctl dctl first mp
                           (set_bits field (bits K (mod_value (modlist ! nat index))) st1)
                           (tl p1)))))"
  by pat_completeness auto

termination abbreviations
  by (relation "measure (\<lambda>(K, ctx, pctl, dctl, first, mp, st, p). length p)")
     (auto simp add: peek_def byte_at_def split: if_splits)

declare abbreviations.simps [simp del]

text \<open>
  One turn of the outer loop \<^verbatim>\<open>for (;;)\<close>. For a modifier that has data (a type other
  than \<open>MOD_CTL\<close> and \<open>MOD_OPT\<close>) the model follows the code up to the \<open>switch\<close> on the
  type and stops there with \<open>Has_data index\<close>: the fields that hold data are not
  modelled.
\<close>

definition separator :: "u8 \<Rightarrow> bool" where
  "separator c = (c = 44 \<or> c = 10 \<or> c = 0)"

definition in_item :: "u8 \<Rightarrow> bool" where
  "in_item c = (c \<noteq> 0 \<and> c \<noteq> 44 \<and> \<not> isspace_c c)"

definition modifier_item ::
  "(string \<Rightarrow> u32) \<Rightarrow> ctx \<Rightarrow> bool \<Rightarrow> bool \<Rightarrow> bool \<Rightarrow> mstate \<Rightarrow> u8 list \<Rightarrow> modstep" where
  "modifier_item K ctx pctl dctl first0 st p0 =
     (let p1 = dropWhile isspace_c p0;
          first = (if peek p1 = 44 then False else first0);
          p2 = dropWhile (\<lambda>c. isspace_c c \<or> c = 44) p1
      in if peek p2 = 0 then Returned True st
         else
           (let off = (peek p2 = 45);
                p = (if off then tl p2 else p2);
                item = (if off then tl (takeWhile in_item p2) else takeWhile in_item p2);
                len = length (takeWhile (\<lambda>c. c \<noteq> 61) item);
                pp = drop len p;
                index = scan_modifiers p len
            in if index < 0 then
                 (if \<not> first
                  then Returned False
                         (complain
                            ([Unrecognized_modifier item]
                             @ (if length item = 1
                                then [Single_character_modifiers_must_come_first] else []))
                            st)
                  else abbreviations K ctx pctl dctl first p st p)
               else
                 (let m = modlist ! nat index in
                  if mod_type m \<noteq> MOD_CTL \<and> mod_type m \<noteq> MOD_OPT then
                    (if peek pp \<noteq> 61
                     then Returned False (complain [Equals_expected (mod_name m)] st)
                     else if off
                     then Returned False (complain [Minus_not_valid (mod_name m)] st)
                     else
                       (case check_modifier m ctx pctl dctl 0 of
                          (None, ms) \<Rightarrow> Returned False (complain ms st)
                        | (Some field, ms) \<Rightarrow> Has_data index st))
                  else if \<not> separator (peek pp)
                  then Returned False (complain [Unrecognized_modifier item] st)
                  else
                    (case check_modifier m ctx pctl dctl 0 of
                       (None, ms) \<Rightarrow> Returned False (complain ms st)
                     | (Some field, ms) \<Rightarrow>
                         Again first
                           (if off then clear_bits field (bits K (mod_value m)) st
                            else set_bits field (bits K (mod_value m)) st)
                           pp))))"

text \<open>Each turn of the loops uses up some of the text, so they end.\<close>

lemma modlist_names: "\<forall>m\<in>set modlist. mod_name m \<noteq> []"
  by (simp add: modlist_def mod_name_def)

lemma scan_loop_found:
  "0 \<le> scan_loop p n bot' top' \<Longrightarrow> top' \<le> MODLISTCOUNT \<Longrightarrow>
     n = length (mod_name (modlist ! nat (scan_loop p n bot' top')))
     \<and> nat (scan_loop p n bot' top') < top'"
proof (induction p n bot' top' rule: scan_loop.induct)
  case (1 p n bot' top')
  let ?mid = "(bot' + top') div 2"
  let ?name = "ascii (mod_name (modlist ! ?mid))"
  let ?c = "strncmp p ?name (if n < length ?name then n else length ?name)"
  let ?c' = "if ?c = 0 then sint (of_nat n - of_nat (length ?name) :: u32) else ?c"
  have gt: "bot' < top'"
    using "1.prems"(1) by (cases "bot' < top'") (simp_all add: scan_loop.simps [of p n bot' top'])
  then have mid: "?mid < top'" by arith
  have unf: "scan_loop p n bot' top' =
      (if ?c = 0 \<and> n = length ?name then int ?mid
       else if ?c' > 0 then scan_loop p n (?mid + 1) top'
       else scan_loop p n bot' ?mid)"
    using gt by (simp add: scan_loop.simps [of p n bot' top'] Let_def)
  show ?case
  proof (cases "?c = 0 \<and> n = length ?name")
    case True
    have "scan_loop p n bot' top' = int ?mid"
      unfolding unf by (rule if_P) (rule True)
    then show ?thesis using True mid by (simp add: ascii_def)
  next
    case False
    show ?thesis
    proof (cases "?c' > 0")
      case True
      have e: "scan_loop p n bot' top' = scan_loop p n (?mid + 1) top'"
        unfolding unf by (simp only: if_not_P [OF False] if_P [OF True])
      have "n = length (mod_name (modlist ! nat (scan_loop p n (?mid + 1) top')))
          \<and> nat (scan_loop p n (?mid + 1) top') < top'"
      proof (rule "1.IH"(1) [OF gt refl refl refl refl False refl True])
        show "0 \<le> scan_loop p n (?mid + 1) top'" using "1.prems"(1) by (simp only: e)
        show "top' \<le> MODLISTCOUNT" by (rule "1.prems"(2))
      qed
      then show ?thesis by (simp only: e)
    next
      case c: False
      have e: "scan_loop p n bot' top' = scan_loop p n bot' ?mid"
        unfolding unf by (simp only: if_not_P [OF False] if_not_P [OF c])
      have "n = length (mod_name (modlist ! nat (scan_loop p n bot' ?mid)))
          \<and> nat (scan_loop p n bot' ?mid) < ?mid"
      proof (rule "1.IH"(2) [OF gt refl refl refl refl False refl c])
        show "0 \<le> scan_loop p n bot' ?mid" using "1.prems"(1) by (simp only: e)
        show "?mid \<le> MODLISTCOUNT" using mid "1.prems"(2) by simp
      qed
      then show ?thesis using mid by (simp add: e)
    qed
  qed
qed

lemma scan_modifiers_found:
  assumes "0 \<le> scan_modifiers p n"
  shows "0 < n"
proof -
  let ?r = "nat (scan_modifiers p n)"
  have f: "n = length (mod_name (modlist ! ?r)) \<and> ?r < MODLISTCOUNT"
    using scan_loop_found [of p n 0 MODLISTCOUNT] assms by (simp add: scan_modifiers_def)
  then have "modlist ! ?r \<in> set modlist"
    by (simp add: MODLISTCOUNT_def)
  then have "mod_name (modlist ! ?r) \<noteq> []"
    using modlist_names by blast
  then have "0 < length (mod_name (modlist ! ?r))"
    by simp
  then show ?thesis
    by (subst conjunct1 [OF f]) assumption
qed

lemma abbreviations_Again:
  "abbreviations K ctx pctl dctl first mp st p = Again first' st' p' \<Longrightarrow>
     length p' \<le> length p \<and> (\<not> (peek p = 44 \<or> peek p = 10 \<or> peek p = 0) \<longrightarrow> length p' < length p)"
proof (induction K ctx pctl dctl first mp st p rule: abbreviations.induct)
  case (1 K ctx pctl dctl first mp st p)
  show ?case
  proof (cases "peek p = 44 \<or> peek p = 10 \<or> peek p = 0")
    case True
    then show ?thesis
      using "1.prems" by (simp add: abbreviations.simps [of K ctx pctl dctl first mp st p])
  next
    case False
    let ?c = "peek p"
    let ?doubled = "byte_at p 1 = ?c"
    let ?cc = "(if ?doubled then push_bit 8 (ucast ?c) OR ucast ?c else ucast ?c :: u32)"
    let ?p1 = "if ?doubled then tl p else p"
    let ?i = "c1_search ?cc c1modlist 0"
    let ?fullname = "fst (c1modlist ! ?i)"
    let ?index = "if c1index st ! ?i \<ge> 0 then c1index st ! ?i
                  else scan_modifiers (ascii ?fullname) (length ?fullname)"
    let ?st1 = "st\<lparr>c1index := (c1index st)[?i := ?index]\<rparr>"
    have ne: "p \<noteq> []"
      using False by (auto simp add: peek_def byte_at_def)
    have a: "\<not> ?i \<ge> C1MODLISTCOUNT" and b: "\<not> ?index < 0"
      using "1.prems" False
      by (auto simp add: abbreviations.simps [of K ctx pctl dctl first mp st p] Let_def
          split: if_splits)
    obtain field ms where ck: "check_modifier (modlist ! nat ?index) ctx pctl dctl (ucast (peek ?p1))
        = (Some field, ms)"
      using "1.prems" False a b
      by (cases "check_modifier (modlist ! nat ?index) ctx pctl dctl (ucast (peek ?p1))")
         (auto simp add: abbreviations.simps [of K ctx pctl dctl first mp st p] Let_def
          split: if_splits option.splits)
    have r: "abbreviations K ctx pctl dctl first mp
               (set_bits field (bits K (mod_value (modlist ! nat ?index))) ?st1) (tl ?p1)
             = Again first' st' p'"
      using "1.prems" False a b ck
      by (simp add: abbreviations.simps [of K ctx pctl dctl first mp st p] Let_def
          split: if_splits)
    have "length p' \<le> length (tl ?p1)"
      using "1.IH" [OF refl False refl refl refl refl a refl refl b refl ck [symmetric] refl r]
      by simp
    then show ?thesis using ne by (cases p) (auto split: if_splits)
  qed
qed


lemma peek_nonempty: "peek p \<noteq> 0 \<Longrightarrow> p \<noteq> []"
  by (cases p) (simp_all add: peek_def byte_at_def)

lemma drop_shorter: "0 < n \<Longrightarrow> n \<le> length xs \<Longrightarrow> length (drop n xs) < length xs"
  by simp

lemma modifier_item_Again:
  assumes "modifier_item K ctx pctl dctl first0 st p0 = Again first' st' p'"
  shows "length p' < length p0"
proof -
  let ?p1 = "dropWhile isspace_c p0"
  let ?first = "if peek ?p1 = 44 then False else first0"
  let ?p2 = "dropWhile (\<lambda>c. isspace_c c \<or> c = 44) ?p1"
  let ?off = "peek ?p2 = 45"
  let ?p = "if ?off then tl ?p2 else ?p2"
  let ?item = "if ?off then tl (takeWhile in_item ?p2) else takeWhile in_item ?p2"
  let ?n = "length (takeWhile (\<lambda>c. c \<noteq> 61) ?item)"
  let ?index = "scan_modifiers ?p ?n"
  let ?m = "modlist ! nat ?index"
  have le2: "length ?p2 \<le> length p0"
    by (rule order_trans [OF length_dropWhile_le length_dropWhile_le])
  have nz: "peek ?p2 \<noteq> 0"
    using assms by (auto simp add: modifier_item_def Let_def)
  then have ne: "?p2 \<noteq> []"
    by (rule peek_nonempty)
  then have hd: "peek ?p2 = hd ?p2"
    by (cases ?p2) (simp_all add: peek_def byte_at_def)
  have "\<not> (isspace_c (hd ?p2) \<or> hd ?p2 = 44)"
    using ne by (rule hd_dropWhile)
  then have nosep: "peek ?p2 \<noteq> 44" "peek ?p2 \<noteq> 10"
    unfolding hd by (auto simp add: isspace_c_def)
  have lep: "length ?p \<le> length ?p2"
    by simp
  have item_le: "length ?item \<le> length ?p"
  proof (cases ?off)
    case True
    then obtain rest where c: "?p2 = 45 # rest"
      using ne hd by (cases ?p2) simp_all
    show ?thesis
      unfolding c by (simp add: in_item_def isspace_c_def length_takeWhile_le)
  next
    case False
    then show ?thesis by (simp add: length_takeWhile_le)
  qed
  have n_le: "?n \<le> length ?p"
    by (rule order_trans [OF length_takeWhile_le item_le])
  show ?thesis
  proof (cases "?index < 0")
    case True
    then have a: "abbreviations K ctx pctl dctl ?first ?p st ?p = Again first' st' p'"
      using assms nz by (simp add: modifier_item_def Let_def split: if_splits)
    note ab = abbreviations_Again [OF a]
    show ?thesis
    proof (cases ?off)
      case True
      then have "length ?p < length ?p2" using ne by simp
      then show ?thesis using ab le2 by simp
    next
      case False
      then have "\<not> (peek ?p = 44 \<or> peek ?p = 10 \<or> peek ?p = 0)"
        using nosep nz by simp
      then have "length p' < length ?p" using ab by blast
      then show ?thesis using lep le2 by simp
    qed
  next
    case False
    then have "0 \<le> ?index"
      by simp
    then have "0 < ?n"
      by (rule scan_modifiers_found)
    then have lt: "length (drop ?n ?p) < length ?p"
      using n_le by (rule drop_shorter)
    have "p' = drop ?n ?p"
      using assms nz False
      by (simp add: modifier_item_def Let_def split: if_splits prod.splits option.splits)
    then show ?thesis using lt lep le2 by simp
  qed
qed

text \<open>The loop \<^verbatim>\<open>for (;;)\<close> of \<open>decode_modifiers\<close>, and the function.\<close>

function decode_loop ::
  "(string \<Rightarrow> u32) \<Rightarrow> ctx \<Rightarrow> bool \<Rightarrow> bool \<Rightarrow> bool \<Rightarrow> mstate \<Rightarrow> u8 list \<Rightarrow> modstep" where
  "decode_loop K ctx pctl dctl first st p =
     (case modifier_item K ctx pctl dctl first st p of
        Again first' st' p' \<Rightarrow> decode_loop K ctx pctl dctl first' st' p'
      | Returned ok st' \<Rightarrow> Returned ok st'
      | Has_data index st' \<Rightarrow> Has_data index st')"
  by pat_completeness auto

termination decode_loop
  by (relation "measure (\<lambda>(K, ctx, pctl, dctl, first, st, p). length p)")
     (auto dest: modifier_item_Again)

declare decode_loop.simps [simp del]

definition decode_modifiers ::
  "(string \<Rightarrow> u32) \<Rightarrow> u8 list \<Rightarrow> ctx \<Rightarrow> bool \<Rightarrow> bool \<Rightarrow> mstate \<Rightarrow> modstep" where
  "decode_modifiers K p ctx pctl dctl st = decode_loop K ctx pctl dctl True st p"

section \<open>The global-match loop of \<open>process_data\<close>\<close>

text \<open>
  The loop \<^verbatim>\<open>for (gmatched = 0;; gmatched++)\<close> that follows the decoding of a data
  line. The matcher \<^verbatim>\<open>pcre2_match\<close> is not part of the program: it is a parameter of
  the model. The controls for timing, DFA matching, \<open>allcaptures\<close>, marks and the copying
  and getting of substrings are taken to be unset.
\<close>

subsection \<open>The matcher and the state\<close>

text \<open>The newline conventions, as the table \<open>newlines\<close> names them.\<close>

datatype newline =
  NEWLINE_DEFAULT | NEWLINE_CR | NEWLINE_LF | NEWLINE_CRLF | NEWLINE_ANY | NEWLINE_ANYCRLF

text \<open>
  The value that the matcher leaves in \<open>capcount\<close>. The numbers of the error codes that
  the loop names are defined in a header outside the sources, so these codes are kept
  symbolic; \<open>Count n\<close> is any other value: a count of captured substrings when
  \<open>n \<ge> 0\<close>, another error when \<open>n < 0\<close>.
\<close>

datatype rc = Count int | ERROR_PARTIAL | ERROR_NOMATCH | ERROR_BADUTF | ERROR_BADUTF_OFFSET

text \<open>
  A call \<^verbatim>\<open>PCRE2_MATCH(capcount, compiled_code, pp, ulen, dat_datctl.offset,
  dat_datctl.options | g_notempty, match_data, dat_context)\<close> is \<open>match pp ulen offset
  g_notempty\<close>, which gives \<open>capcount\<close> and the first two entries of the offsets vector
  of \<open>match_data\<close>. The flag \<open>g_notempty\<close> is either 0 or
  \<^verbatim>\<open>PCRE2_NOTEMPTY_ATSTART | PCRE2_ANCHORED\<close>, which is taken to be non-zero: it is
  modelled as a truth value.
\<close>

type_synonym matcher = "nat \<Rightarrow> nat \<Rightarrow> u32 \<Rightarrow> bool \<Rightarrow> rc \<times> nat \<times> nat"

text \<open>The fields of \<open>dat_datctl\<close> that the loop uses; all three are \<open>uint32_t\<close>.\<close>

record datctl =
  control :: u32
  oveccount :: u32
  offset :: u32

text \<open>
  The variables of the loop: \<open>pp\<close> is the address of the subject's first byte, \<open>len\<close>
  and \<open>ulen\<close> are values of type \<open>size_t\<close>.
\<close>

record gstate =
  dat_datctl :: datctl
  pp :: nat
  len :: nat
  ulen :: nat
  g_notempty :: bool
  gmatched :: u32

text \<open>What the loop prints, one entry for each kind of message.\<close>

datatype report =
    Too_many_substrings
  | Count_too_big int u32
  | Global_loop_abandoned
  | Captures int nat nat
  | Partial_match
  | No_match
  | Error_shown rc

text \<open>
  \<open>Captures capcount s e\<close> stands for the \<open>capcount\<close> lines that show the captured
  substrings, \<open>s\<close> and \<open>e\<close> being the first two entries of the offsets vector.
\<close>

subsection \<open>The forced advance after an empty match\<close>

text \<open>
  \<^verbatim>\<open>CODE_UNIT(a,b)\<close>: the code unit number \<open>b\<close> from address \<open>a\<close>; a unit of 16 or 32
  bits is stored with its least significant byte first.
\<close>

definition CODE_UNIT :: "test_mode \<Rightarrow> (nat \<Rightarrow> u8) \<Rightarrow> nat \<Rightarrow> nat \<Rightarrow> u32" where
  "CODE_UNIT mode mem a b =
     (case mode of
        PCRE8_MODE \<Rightarrow> ucast (mem (a + b))
      | PCRE16_MODE \<Rightarrow> ucast (mem (a + 2 * b)) OR push_bit 8 (ucast (mem (a + 2 * b + 1)))
      | PCRE32_MODE \<Rightarrow>
          ucast (mem (a + 4 * b)) OR push_bit 8 (ucast (mem (a + 4 * b + 1)))
          OR push_bit 16 (ucast (mem (a + 4 * b + 2)))
          OR push_bit 24 (ucast (mem (a + 4 * b + 3))))"

text \<open>
  \<^verbatim>\<open>for (; end_offset < ulen; end_offset++)
    if ((((PCRE2_SPTR16)pp)[end_offset] & 0xfc00) != 0xdc00) break;\<close>
\<close>

function skip16 :: "(nat \<Rightarrow> u8) \<Rightarrow> nat \<Rightarrow> nat \<Rightarrow> nat \<Rightarrow> nat" where
  "skip16 mem a n end_offset =
     (if end_offset < n then
        if CODE_UNIT PCRE16_MODE mem a end_offset AND 0xfc00 \<noteq> 0xdc00 then end_offset
        else skip16 mem a n (end_offset + 1)
      else end_offset)"
  by pat_completeness auto

termination skip16
  by (relation "measure (\<lambda>(mem, a, n, end_offset). n - end_offset)") auto

declare skip16.simps [simp del]

lemma skip16_ge: "end_offset \<le> skip16 mem a n end_offset"
proof (induction mem a n end_offset rule: skip16.induct)
  case (1 mem a n end_offset)
  show ?case
  proof (cases "end_offset < n \<and> \<not> CODE_UNIT PCRE16_MODE mem a end_offset AND 0xfc00 \<noteq> 0xdc00")
    case True
    then have "end_offset + 1 \<le> skip16 mem a n (end_offset + 1)"
      by (intro "1.IH") simp_all
    then show ?thesis
      using True by (simp add: skip16.simps [of mem a n end_offset])
  next
    case False
    then show ?thesis
      by (auto simp add: skip16.simps [of mem a n end_offset])
  qed
qed

text \<open>
  The code under \<^verbatim>\<open>if (test_mode == PCRE8_MODE)\<close> is

  \<^verbatim>\<open>for (; end_offset < ulen; end_offset++)
    if ((((PCRE2_SPTR8)pp)[end_offset] & 0xc0) != 0x80) break;
  else
    for (; end_offset < ulen; end_offset++)
      if ((((PCRE2_SPTR16)pp)[end_offset] & 0xfc00) != 0xdc00) break;\<close>

  where the \<open>else\<close> belongs to the nearest \<open>if\<close>, the one inside the first loop: the
  second loop is the \<open>else\<close> part of the test of the byte, and it runs in 8-bit mode.
\<close>

function skip8 :: "(nat \<Rightarrow> u8) \<Rightarrow> nat \<Rightarrow> nat \<Rightarrow> nat \<Rightarrow> nat" where
  "skip8 mem a n end_offset =
     (if end_offset < n then
        if mem (a + end_offset) AND 0xc0 \<noteq> 0x80 then end_offset
        else skip8 mem a n (skip16 mem a n end_offset + 1)
      else end_offset)"
  by pat_completeness auto

termination skip8
proof (relation "measure (\<lambda>(mem, a, n, end_offset). n - end_offset)")
  show "wf (measure (\<lambda>(mem, a, n, end_offset). n - end_offset))"
    by simp
next
  fix mem :: "nat \<Rightarrow> u8" and a n end_offset :: nat
  assume "end_offset < n"
  moreover have "end_offset \<le> skip16 mem a n end_offset"
    by (rule skip16_ge)
  ultimately show "((mem, a, n, skip16 mem a n end_offset + 1), (mem, a, n, end_offset))
      \<in> measure (\<lambda>(mem, a, n, end_offset). n - end_offset)"
    by simp
qed

declare skip8.simps [simp del]

text \<open>
  The end of the match that is pretended when a match fails after an empty match
  (\<open>start_offset\<close> is \<open>dat_datctl.offset\<close>). In 16-bit mode nothing is skipped, since
  the second loop is not the \<open>else\<close> part of the test of the mode.
\<close>

definition fake_match_end ::
  "test_mode \<Rightarrow> bool \<Rightarrow> newline \<Rightarrow> (nat \<Rightarrow> u8) \<Rightarrow> nat \<Rightarrow> nat \<Rightarrow> nat \<Rightarrow> nat" where
  "fake_match_end mode utf nl mem a n start_offset =
     (let end_offset = (start_offset + 1) mod size_max in
      if (nl = NEWLINE_CRLF \<or> nl = NEWLINE_ANY \<or> nl = NEWLINE_ANYCRLF)
         \<and> start_offset < (n + size_max - 1) mod size_max
         \<and> CODE_UNIT mode mem a start_offset = 13
         \<and> CODE_UNIT mode mem a end_offset = 10
      then (end_offset + 1) mod size_max
      else if utf \<and> mode \<noteq> PCRE32_MODE then
        (if mode = PCRE8_MODE then skip8 mem a n end_offset else end_offset)
      else end_offset)"

subsection \<open>One iteration\<close>

datatype iter = Break "report list" | Next "report list" gstate

text \<open>
  The end of an iteration (\<^verbatim>\<open>if ((dat_datctl.control & CTL_ANYGLOB) == 0) break; else
  ...\<close>), reached after a match or a pretended match whose offsets are \<open>ov\<close>. For
  \<open>/g\<close> the end of the match is stored into the 32-bit \<open>dat_datctl.offset\<close>; for \<open>/G\<close>
  the code is

  \<^verbatim>\<open>pp += end_offset * code_unit_size;
  len -= end_offset;
  ulen -= end_offset *code_unit_size;\<close>
\<close>

definition next_iteration :: "test_mode \<Rightarrow> gstate \<Rightarrow> nat \<times> nat \<Rightarrow> gstate option" where
  "next_iteration mode st ov =
     (if control (dat_datctl st) AND CTL_ANYGLOB = 0 then None
      else
        (let end_offset = snd ov in
         if fst ov = end_offset \<and> end_offset = ulen st then None
         else
           (let st1 = st\<lparr>g_notempty := (fst ov = end_offset)\<rparr> in
            if control (dat_datctl st) AND CTL_GLOBAL \<noteq> 0
            then Some (st1\<lparr>dat_datctl := (dat_datctl st)\<lparr>offset := of_nat end_offset\<rparr>,
                            gmatched := gmatched st + 1\<rparr>)
            else Some (st1\<lparr>pp := pp st + (end_offset * code_unit_size mode) mod size_max,
                            len := (len st + size_max - end_offset) mod size_max,
                            ulen := (ulen st + size_max
                                      - (end_offset * code_unit_size mode) mod size_max)
                                    mod size_max,
                            gmatched := gmatched st + 1\<rparr>))))"

text \<open>What is printed for a match that returned \<open>n \<ge> 0\<close>.\<close>

definition show_match :: "datctl \<Rightarrow> int \<Rightarrow> nat \<times> nat \<Rightarrow> report list" where
  "show_match ctl n ov =
     (if n > sint (oveccount ctl) then
        [Count_too_big n (oveccount ctl)]
        @ (if control ctl AND CTL_ANYGLOB \<noteq> 0 then [Global_loop_abandoned] else [])
        @ [Captures (sint (oveccount ctl)) (fst ov) (snd ov)]
      else [Captures n (fst ov) (snd ov)])"

text \<open>What is printed for a failure that ends the loop.\<close>

definition show_failure :: "gstate \<Rightarrow> rc \<Rightarrow> report list" where
  "show_failure st capcount =
     (if capcount = ERROR_NOMATCH then (if gmatched st = 0 then [No_match] else [])
      else [Error_shown capcount])"

definition finish :: "test_mode \<Rightarrow> gstate \<Rightarrow> report list \<Rightarrow> nat \<times> nat \<Rightarrow> iter" where
  "finish mode st out ov =
     (case next_iteration mode st ov of None \<Rightarrow> Break out | Some st' \<Rightarrow> Next out st')"

definition iteration ::
  "matcher \<Rightarrow> test_mode \<Rightarrow> bool \<Rightarrow> newline \<Rightarrow> (nat \<Rightarrow> u8) \<Rightarrow> gstate \<Rightarrow> iter" where
  "iteration match mode utf nl mem st =
     (case match (pp st) (ulen st) (offset (dat_datctl st)) (g_notempty st) of
        (returned, ov) \<Rightarrow>
          (let out0 = (if returned = Count 0 then [Too_many_substrings] else []);
               capcount = (if returned = Count 0 then Count (sint (oveccount (dat_datctl st)))
                           else returned)
           in case capcount of
                Count n \<Rightarrow>
                  if n \<ge> 0 then finish mode st (out0 @ show_match (dat_datctl st) n ov) ov
                  else if g_notempty st then
                    finish mode st out0
                      (unat (offset (dat_datctl st)),
                       fake_match_end mode utf nl mem (pp st) (ulen st)
                         (unat (offset (dat_datctl st))))
                  else Break (out0 @ show_failure st capcount)
              | ERROR_PARTIAL \<Rightarrow> Break (out0 @ [Partial_match])
              | _ \<Rightarrow>
                  if g_notempty st then
                    finish mode st out0
                      (unat (offset (dat_datctl st)),
                       fake_match_end mode utf nl mem (pp st) (ulen st)
                         (unat (offset (dat_datctl st))))
                  else Break (out0 @ show_failure st capcount)))"

subsection \<open>The loop\<close>

text \<open>
  The loop need not end (a matcher may keep returning the same match): it is run for at
  most \<open>fuel\<close> iterations, and gives \<open>None\<close> when it has not ended by then.
\<close>

fun global_loop ::
  "nat \<Rightarrow> matcher \<Rightarrow> test_mode \<Rightarrow> bool \<Rightarrow> newline \<Rightarrow> (nat \<Rightarrow> u8) \<Rightarrow> gstate
   \<Rightarrow> report list option" where
  "global_loop 0 match mode utf nl mem st = None"
| "global_loop (Suc fuel) match mode utf nl mem st =
     (case iteration match mode utf nl mem st of
        Break out \<Rightarrow> Some out
      | Next out st' \<Rightarrow>
          (case global_loop fuel match mode utf nl mem st' of
             None \<Rightarrow> None
           | Some later \<Rightarrow> Some (out @ later)))"

text \<open>
  For the examples: a matcher that finds the empty string wherever it is asked to start,
  and nothing when an empty match at the start is excluded; and the state in which the
  loop starts on a subject of \<open>n\<close> code units at address 0.
\<close>

definition empty_everywhere :: matcher where
  "empty_everywhere a n start notempty =
     (if notempty then (ERROR_NOMATCH, 0, 0) else (Count 1, unat start, unat start))"

definition loop_start :: "test_mode \<Rightarrow> u32 \<Rightarrow> nat \<Rightarrow> gstate" where
  "loop_start mode ctl n =
     \<lparr>dat_datctl = \<lparr>control = ctl, oveccount = 15, offset = 0\<rparr>,
      pp = 0, len = n * code_unit_size mode, ulen = n, g_notempty = False, gmatched = 0\<rparr>"

section \<open>Properties of the codepoint codec\<close>


lemma bit_0x80: "bit (0x80::int) n \<longleftrightarrow> n = 7"
proof -
  have "(0x80::int) = 2 ^ 7" by simp
  then show ?thesis by (simp only: bit_exp_iff) auto
qed

lemma bit_0xc0: "bit (0xc0::int) n \<longleftrightarrow> n = 6 \<or> n = 7"
proof -
  have "(0xc0::int) = push_bit 6 (mask 2)" by (simp add: mask_eq_exp_minus_1)
  then show ?thesis by (simp only: bit_push_bit_iff bit_mask_iff) auto
qed

lemma and_0x80_iff: "(x AND (0x80::u32) = 0) = (\<not> bit x 7)"
proof -
  have "(0x80::u32) = 2 ^ 7" by simp
  then show ?thesis by (simp only: and_exp_eq_0_iff_not_bit)
qed

lemma and_0xc0_iff: "(x AND (0xc0::u32) = 0x80) = (bit x 7 \<and> \<not> bit x 6)"
proof
  assume a: "x AND 0xc0 = 0x80"
  have "bit (x AND 0xc0) 7 = bit (0x80::u32) 7" "bit (x AND 0xc0) 6 = bit (0x80::u32) 6"
    by (simp_all only: a)
  then show "bit x 7 \<and> \<not> bit x 6" by (simp add: bit_simps)
next
  assume "bit x 7 \<and> \<not> bit x 6"
  then show "x AND 0xc0 = 0x80"
    by (intro bit_word_eqI) (auto simp add: bit_simps bit_0x80 bit_0xc0)
qed

lemma bit_shl1:
  "bit (push_bit 1 (d::u32)) 7 = bit d 6" "bit (push_bit 1 d) 6 = bit d 5"
  "bit (push_bit 1 d) 5 = bit d 4" "bit (push_bit 1 d) 4 = bit d 3"
  "bit (push_bit 1 d) 3 = bit d 2" "bit (push_bit 1 d) 2 = bit d 1"
  by (simp_all only: bit_push_bit_iff) simp_all

lemma extra_step:
  "i < 6 \<Longrightarrow> utf82ord_extra i d = (if \<not> bit d 7 then i else utf82ord_extra (i + 1) (push_bit 1 d))"
  by (subst utf82ord_extra.simps) (simp add: and_0x80_iff)

lemma extra6: "utf82ord_extra 6 d = 6"
  by (subst utf82ord_extra.simps) simp

lemma extra5: "utf82ord_extra 5 d = (if \<not> bit d 7 then 5 else 6)"
  using extra_step [of 5 d] extra6 [of "push_bit 1 d"] by simp

lemma extra4: "utf82ord_extra 4 d = (if \<not> bit d 7 then 4 else if \<not> bit d 6 then 5 else 6)"
  using extra_step [of 4 d] extra5 [of "push_bit 1 d"] by (simp only: bit_shl1) simp

lemma extra3: "utf82ord_extra 3 d =
    (if \<not> bit d 7 then 3 else if \<not> bit d 6 then 4 else if \<not> bit d 5 then 5 else 6)"
  using extra_step [of 3 d] extra4 [of "push_bit 1 d"] by (simp only: bit_shl1) simp

lemma extra2: "utf82ord_extra 2 d =
    (if \<not> bit d 7 then 2 else if \<not> bit d 6 then 3 else if \<not> bit d 5 then 4
     else if \<not> bit d 4 then 5 else 6)"
  using extra_step [of 2 d] extra3 [of "push_bit 1 d"] by (simp only: bit_shl1) simp

lemma extra1: "utf82ord_extra 1 d =
    (if \<not> bit d 7 then 1 else if \<not> bit d 6 then 2 else if \<not> bit d 5 then 3
     else if \<not> bit d 4 then 4 else if \<not> bit d 3 then 5 else 6)"
  using extra_step [of 1 d] extra2 [of "push_bit 1 d"] by (simp only: bit_shl1) simp

lemma extra0: "utf82ord_extra 0 d =
    (if \<not> bit d 7 then 0 else if \<not> bit d 6 then 1 else if \<not> bit d 5 then 2
     else if \<not> bit d 4 then 3 else if \<not> bit d 3 then 4 else if \<not> bit d 2 then 5 else 6)"
  using extra_step [of 0 d] extra1 [of "push_bit 1 d"] by (simp only: bit_shl1) simp

lemma extra_closed:
  "utf82ord_extra (- 1) c =
     (if \<not> bit c 7 then - 1 else if \<not> bit c 6 then 0 else if \<not> bit c 5 then 1
      else if \<not> bit c 4 then 2 else if \<not> bit c 3 then 3 else if \<not> bit c 2 then 4
      else if \<not> bit c 1 then 5 else 6)"
  using extra_step [of "- 1" c] extra0 [of "push_bit 1 c"] by (simp only: bit_shl1) simp


lemma and_0x3f: "x AND (0x3f::u32) = take_bit 6 x"
  by (simp add: take_bit_eq_mask mask_eq_exp_minus_1)
lemma and_0x1f: "x AND (0x1f::u32) = take_bit 5 x"
  by (simp add: take_bit_eq_mask mask_eq_exp_minus_1)
lemma and_0x0f: "x AND (0x0f::u32) = take_bit 4 x"
  by (simp add: take_bit_eq_mask mask_eq_exp_minus_1)
lemma and_0x07: "x AND (0x07::u32) = take_bit 3 x"
  by (simp add: take_bit_eq_mask mask_eq_exp_minus_1)
lemma and_0x03: "x AND (0x03::u32) = take_bit 2 x"
  by (simp add: take_bit_eq_mask mask_eq_exp_minus_1)
lemma and_0x01: "x AND (0x01::u32) = take_bit 1 x"
  by (simp add: take_bit_eq_mask mask_eq_exp_minus_1)
lemma or_0x80: "(0x80::u32) OR x = set_bit 7 x"
  by (simp add: set_bit_eq_or or.commute)
lemma or_0xc0: "(0xc0::u32) OR x = set_bit 7 (set_bit 6 x)"
  by (simp add: set_bit_eq_or or.commute or.left_commute or.assoc [symmetric])
lemma or_0xe0: "(0xe0::u32) OR x = set_bit 7 (set_bit 6 (set_bit 5 x))"
  by (simp add: set_bit_eq_or or.commute or.left_commute or.assoc [symmetric])
lemma or_0xf0: "(0xf0::u32) OR x = set_bit 7 (set_bit 6 (set_bit 5 (set_bit 4 x)))"
  by (simp add: set_bit_eq_or or.commute or.left_commute or.assoc [symmetric])
lemma or_0xf8: "(0xf8::u32) OR x = set_bit 7 (set_bit 6 (set_bit 5 (set_bit 4 (set_bit 3 x))))"
  by (simp add: set_bit_eq_or or.commute or.left_commute or.assoc [symmetric])
lemma or_0xfc: "(0xfc::u32) OR x = set_bit 7 (set_bit 6 (set_bit 5 (set_bit 4 (set_bit 3 (set_bit 2 x)))))"
  by (simp add: set_bit_eq_or or.commute or.left_commute or.assoc [symmetric])

lemmas byte_consts = and_0x3f and_0x1f and_0x0f and_0x07 and_0x03 and_0x01
  or_0x80 or_0xc0 or_0xe0 or_0xf0 or_0xf8 or_0xfc

lemma fill_numeral:
  "ord2utf8_fill i (numeral k) cvalue acc =
     ord2utf8_fill i (pred_numeral k) (drop_bit 6 cvalue) (ucast (0x80 OR (cvalue AND 0x3f)) # acc)"
  by (simp add: numeral_eq_Suc)

lemma fill_one:
  "ord2utf8_fill i 1 cvalue acc =
     ord2utf8_fill i 0 (drop_bit 6 cvalue) (ucast (0x80 OR (cvalue AND 0x3f)) # acc)"
  by (simp only: One_nat_def ord2utf8_fill.simps)

lemma cont_step:
  "j < i \<Longrightarrow> utf82ord_cont bs j i s d =
     (if (ucast (byte_at bs (Suc j)) :: u32) AND 0xc0 \<noteq> 0x80 then Inl (- (int j + 1))
      else utf82ord_cont bs (Suc j) i (s - 6)
             (d OR push_bit (s - 6) ((ucast (byte_at bs (Suc j)) :: u32) AND 0x3f)))"
  by (subst utf82ord_cont.simps) (simp add: Let_def)

lemma cont_done: "utf82ord_cont bs i i s d = Inr d"
  by (subst utf82ord_cont.simps) simp

lemma trail_ok:
  "(ucast (ucast ((0x80::u32) OR (y AND 0x3f)) :: u8) :: u32) AND 0xc0 = 0x80"
  by (simp only: and_0xc0_iff byte_consts) (simp add: bit_simps)

lemma lt_take_bit: "(c::u32) < 2 ^ n \<Longrightarrow> take_bit n c = c"
  by (simp only: take_bit_eq_mask less_mask_eq)

lemma le_take_bit:
  fixes c :: u32
  shows "c \<le> 0x7f \<Longrightarrow> take_bit 7 c = c"
    and "c \<le> 0x7ff \<Longrightarrow> take_bit 11 c = c"
    and "c \<le> 0xffff \<Longrightarrow> take_bit 16 c = c"
    and "c \<le> 0x1fffff \<Longrightarrow> take_bit 21 c = c"
    and "c \<le> 0x3ffffff \<Longrightarrow> take_bit 26 c = c"
    and "c \<le> 0x7fffffff \<Longrightarrow> take_bit 31 c = c"
  by (rule lt_take_bit, simp add: word_le_def word_less_def)+

lemma not_gt_max:
  fixes c :: u32
  shows "c \<le> 0x7ff \<Longrightarrow> \<not> 0x7fffffff < c"
    and "c \<le> 0xffff \<Longrightarrow> \<not> 0x7fffffff < c"
    and "c \<le> 0x1fffff \<Longrightarrow> \<not> 0x7fffffff < c"
    and "c \<le> 0x3ffffff \<Longrightarrow> \<not> 0x7fffffff < c"
    and "c \<le> 0x7f \<Longrightarrow> \<not> 0x7fffffff < c"
  by (simp_all add: word_le_def word_less_def)

lemma le_chain:
  fixes c :: u32
  shows "c \<le> 0x7f \<Longrightarrow> c \<le> 0x7ff" and "c \<le> 0x7ff \<Longrightarrow> c \<le> 0xffff"
    and "c \<le> 0xffff \<Longrightarrow> c \<le> 0x1fffff" and "c \<le> 0x1fffff \<Longrightarrow> c \<le> 0x3ffffff"
    and "c \<le> 0x3ffffff \<Longrightarrow> c \<le> 0x7fffffff"
  by (erule order_trans, simp)+

lemma trail_payload:
  "(ucast (ucast ((0x80::u32) OR (y AND 0x3f)) :: u8) :: u32) AND 0x3f = take_bit 6 y"
  by (simp only: byte_consts) (rule bit_word_eqI, auto simp add: bit_simps)

lemma lead_payload:
  fixes y :: u32
  shows "(ucast (ucast (0xc0 OR y) :: u8) :: u32) AND 0x1f = take_bit 5 y"
    and "(ucast (ucast (0xe0 OR y) :: u8) :: u32) AND 0x0f = take_bit 4 y"
    and "(ucast (ucast (0xf0 OR y) :: u8) :: u32) AND 0x07 = take_bit 3 y"
    and "(ucast (ucast (0xf8 OR y) :: u8) :: u32) AND 0x03 = take_bit 2 y"
    and "(ucast (ucast (0xfc OR y) :: u8) :: u32) AND 0x01 = take_bit 1 y"
  by (simp_all only: byte_consts) ((rule bit_word_eqI, auto simp add: bit_simps simp flip: bit_0)[1])+

lemma join_bits:
  fixes c :: u32
  shows "push_bit 6 (take_bit 6 (drop_bit 6 c)) OR take_bit 6 c = take_bit 12 c"
    and "push_bit 12 (take_bit 6 (drop_bit 12 c)) OR take_bit 12 c = take_bit 18 c"
    and "push_bit 18 (take_bit 6 (drop_bit 18 c)) OR take_bit 18 c = take_bit 24 c"
    and "push_bit 24 (take_bit 6 (drop_bit 24 c)) OR take_bit 24 c = take_bit 30 c"
    and "push_bit 6 (take_bit 5 (drop_bit 6 c)) OR take_bit 6 c = take_bit 11 c"
    and "push_bit 12 (take_bit 4 (drop_bit 12 c)) OR take_bit 12 c = take_bit 16 c"
    and "push_bit 18 (take_bit 3 (drop_bit 18 c)) OR take_bit 18 c = take_bit 21 c"
    and "push_bit 24 (take_bit 2 (drop_bit 24 c)) OR take_bit 24 c = take_bit 26 c"
  by ((rule bit_word_eqI, auto simp add: bit_simps)[1])+

lemma join_bit30:
  fixes c :: u32
  shows "push_bit 30 (take_bit 1 (drop_bit 30 c)) OR take_bit 30 c = take_bit 31 c"
proof (rule bit_word_eqI)
  fix n
  show "bit (push_bit 30 (take_bit 1 (drop_bit 30 c)) OR take_bit 30 c) n = bit (take_bit 31 c) n"
    by (cases "n = 30") (auto simp add: bit_simps simp flip: bit_0)
qed

lemma cont_unroll2:
  "utf82ord_cont bs 0 (Suc 0) 6 d =
     (if (ucast (byte_at bs (Suc 0)) :: u32) AND 0xc0 \<noteq> 0x80 then Inl (- 1) else Inr (d OR push_bit 0 ((ucast (byte_at bs (Suc 0)) :: u32) AND 0x3f)))"
  apply (subst cont_step [of "0" "Suc 0"], simp)
  apply (subst cont_done)
  apply (simp del: push_bit_and)
  done

lemma lead2:
  fixes x :: u32
  shows "utf82ord_extra (- 1) (ucast (ucast (0xc0 OR drop_bit 6 (take_bit 11 x)) :: u8) :: u32) = 1"
  unfolding extra_closed by (simp only: byte_consts) (simp add: bit_simps)

lemma core2:
  fixes c :: u32
  defines "b0 \<equiv> (ucast (ucast (0xc0 OR drop_bit 6 c) :: u8) :: u32)"
  defines "b1 \<equiv> (ucast (ucast (0x80 OR (c AND 0x3f)) :: u8) :: u32)"
  shows "(push_bit 6 (b0 AND 0x1f) OR push_bit 0 (b1 AND 0x3f)) = take_bit 11 c"
  unfolding b0_def b1_def
  by (simp only: trail_payload lead_payload push_bit_0_id id_apply or.assoc join_bits join_bit30)

lemma rt2:
  fixes c :: u32
  assumes lo: "\<not> c \<le> 0x7f" and hi: "c \<le> 0x7ff"
  defines "bs \<equiv> [ucast (0xc0 OR drop_bit 6 c), ucast (0x80 OR (c AND 0x3f))] :: u8 list"
  shows "ord2utf8 c = (2, bs)" and "utf82ord (bs @ rest) v = (2, c)"
proof -
  have idx: "table1_index 0 c = 1"
    using lo hi le_chain [of c] by (auto simp add: table1_index.simps utf8_table1_def utf8_table1_size_def)
  show enc: "ord2utf8 c = (2, bs)"
    using hi by (simp add: not_gt_max ord2utf8_def idx bs_def fill_one fill_numeral utf8_table2_def)
  have tb: "take_bit 11 c = c" using hi by (rule le_take_bit)
  note ld = lead2 [of c, unfolded tb]
  note core = core2 [of c, unfolded tb]
  have b: "byte_at (bs @ rest) (0) = ucast (0xc0 OR drop_bit 6 c)"
    "byte_at (bs @ rest) (Suc 0) = ucast (0x80 OR (c AND 0x3f))"
    by (simp_all add: bs_def byte_at_def)
  have cont: "utf82ord_cont (bs @ rest) 0 (Suc 0) 6 (push_bit 6 ((ucast (ucast (0xc0 OR drop_bit 6 c) :: u8) :: u32) AND 0x1f)) = Inr c"
    by (simp only: cont_unroll2 b trail_ok core) simp
  have n: "nat 1 = Suc 0" "6 * Suc 0 = 6" "1 = nat 1" by simp_all
  have t3: "utf8_table3 ! (Suc 0) = 0x1f" by (simp add: utf8_table3_def)
  show "utf82ord (bs @ rest) v = (2, c)"
    unfolding utf82ord_def Let_def b(1) ld
    by (simp only: t3 n(1,2) cont) (simp add: idx)
qed

lemma cont_unroll3:
  "utf82ord_cont bs 0 (Suc (Suc 0)) 12 d =
     (if (ucast (byte_at bs (Suc 0)) :: u32) AND 0xc0 \<noteq> 0x80 then Inl (- 1) else (if (ucast (byte_at bs (Suc (Suc 0))) :: u32) AND 0xc0 \<noteq> 0x80 then Inl (- 2) else Inr ((d OR push_bit 6 ((ucast (byte_at bs (Suc 0)) :: u32) AND 0x3f)) OR push_bit 0 ((ucast (byte_at bs (Suc (Suc 0))) :: u32) AND 0x3f))))"
  apply (subst cont_step [of "0" "Suc (Suc 0)"], simp)
  apply (subst cont_step [of "Suc 0" "Suc (Suc 0)"], simp)
  apply (subst cont_done)
  apply (simp del: push_bit_and)
  done

lemma lead3:
  fixes x :: u32
  shows "utf82ord_extra (- 1) (ucast (ucast (0xe0 OR drop_bit 12 (take_bit 16 x)) :: u8) :: u32) = 2"
  unfolding extra_closed by (simp only: byte_consts) (simp add: bit_simps)

lemma core3:
  fixes c :: u32
  defines "b0 \<equiv> (ucast (ucast (0xe0 OR drop_bit 12 c) :: u8) :: u32)"
  defines "b1 \<equiv> (ucast (ucast (0x80 OR (drop_bit 6 c AND 0x3f)) :: u8) :: u32)"
  defines "b2 \<equiv> (ucast (ucast (0x80 OR (c AND 0x3f)) :: u8) :: u32)"
  shows "((push_bit 12 (b0 AND 0x0f) OR push_bit 6 (b1 AND 0x3f)) OR push_bit 0 (b2 AND 0x3f)) = take_bit 16 c"
  unfolding b0_def b1_def b2_def
  by (simp only: trail_payload lead_payload push_bit_0_id id_apply or.assoc join_bits join_bit30)

lemma rt3:
  fixes c :: u32
  assumes lo: "\<not> c \<le> 0x7ff" and hi: "c \<le> 0xffff"
  defines "bs \<equiv> [ucast (0xe0 OR drop_bit 12 c), ucast (0x80 OR (drop_bit 6 c AND 0x3f)), ucast (0x80 OR (c AND 0x3f))] :: u8 list"
  shows "ord2utf8 c = (3, bs)" and "utf82ord (bs @ rest) v = (3, c)"
proof -
  have idx: "table1_index 0 c = 2"
    using lo hi le_chain [of c] by (auto simp add: table1_index.simps utf8_table1_def utf8_table1_size_def)
  show enc: "ord2utf8 c = (3, bs)"
    using hi by (simp add: not_gt_max ord2utf8_def idx bs_def fill_one fill_numeral utf8_table2_def)
  have tb: "take_bit 16 c = c" using hi by (rule le_take_bit)
  note ld = lead3 [of c, unfolded tb]
  note core = core3 [of c, unfolded tb]
  have b: "byte_at (bs @ rest) (0) = ucast (0xe0 OR drop_bit 12 c)"
    "byte_at (bs @ rest) (Suc 0) = ucast (0x80 OR (drop_bit 6 c AND 0x3f))"
    "byte_at (bs @ rest) (Suc (Suc 0)) = ucast (0x80 OR (c AND 0x3f))"
    by (simp_all add: bs_def byte_at_def)
  have cont: "utf82ord_cont (bs @ rest) 0 (Suc (Suc 0)) 12 (push_bit 12 ((ucast (ucast (0xe0 OR drop_bit 12 c) :: u8) :: u32) AND 0x0f)) = Inr c"
    by (simp only: cont_unroll3 b trail_ok core) simp
  have n: "nat 2 = Suc (Suc 0)" "6 * Suc (Suc 0) = 12" "2 = nat 2" by simp_all
  have t3: "utf8_table3 ! (Suc (Suc 0)) = 0x0f" by (simp add: utf8_table3_def)
  show "utf82ord (bs @ rest) v = (3, c)"
    unfolding utf82ord_def Let_def b(1) ld
    by (simp only: t3 n(1,2) cont) (simp add: idx)
qed

lemma cont_unroll4:
  "utf82ord_cont bs 0 (Suc (Suc (Suc 0))) 18 d =
     (if (ucast (byte_at bs (Suc 0)) :: u32) AND 0xc0 \<noteq> 0x80 then Inl (- 1) else (if (ucast (byte_at bs (Suc (Suc 0))) :: u32) AND 0xc0 \<noteq> 0x80 then Inl (- 2) else (if (ucast (byte_at bs (Suc (Suc (Suc 0)))) :: u32) AND 0xc0 \<noteq> 0x80 then Inl (- 3) else Inr (((d OR push_bit 12 ((ucast (byte_at bs (Suc 0)) :: u32) AND 0x3f)) OR push_bit 6 ((ucast (byte_at bs (Suc (Suc 0))) :: u32) AND 0x3f)) OR push_bit 0 ((ucast (byte_at bs (Suc (Suc (Suc 0)))) :: u32) AND 0x3f)))))"
  apply (subst cont_step [of "0" "Suc (Suc (Suc 0))"], simp)
  apply (subst cont_step [of "Suc 0" "Suc (Suc (Suc 0))"], simp)
  apply (subst cont_step [of "Suc (Suc 0)" "Suc (Suc (Suc 0))"], simp)
  apply (subst cont_done)
  apply (simp del: push_bit_and)
  done

lemma lead4:
  fixes x :: u32
  shows "utf82ord_extra (- 1) (ucast (ucast (0xf0 OR drop_bit 18 (take_bit 21 x)) :: u8) :: u32) = 3"
  unfolding extra_closed by (simp only: byte_consts) (simp add: bit_simps)

lemma core4:
  fixes c :: u32
  defines "b0 \<equiv> (ucast (ucast (0xf0 OR drop_bit 18 c) :: u8) :: u32)"
  defines "b1 \<equiv> (ucast (ucast (0x80 OR (drop_bit 12 c AND 0x3f)) :: u8) :: u32)"
  defines "b2 \<equiv> (ucast (ucast (0x80 OR (drop_bit 6 c AND 0x3f)) :: u8) :: u32)"
  defines "b3 \<equiv> (ucast (ucast (0x80 OR (c AND 0x3f)) :: u8) :: u32)"
  shows "(((push_bit 18 (b0 AND 0x07) OR push_bit 12 (b1 AND 0x3f)) OR push_bit 6 (b2 AND 0x3f)) OR push_bit 0 (b3 AND 0x3f)) = take_bit 21 c"
  unfolding b0_def b1_def b2_def b3_def
  by (simp only: trail_payload lead_payload push_bit_0_id id_apply or.assoc join_bits join_bit30)

lemma rt4:
  fixes c :: u32
  assumes lo: "\<not> c \<le> 0xffff" and hi: "c \<le> 0x1fffff"
  defines "bs \<equiv> [ucast (0xf0 OR drop_bit 18 c), ucast (0x80 OR (drop_bit 12 c AND 0x3f)), ucast (0x80 OR (drop_bit 6 c AND 0x3f)), ucast (0x80 OR (c AND 0x3f))] :: u8 list"
  shows "ord2utf8 c = (4, bs)" and "utf82ord (bs @ rest) v = (4, c)"
proof -
  have idx: "table1_index 0 c = 3"
    using lo hi le_chain [of c] by (auto simp add: table1_index.simps utf8_table1_def utf8_table1_size_def)
  show enc: "ord2utf8 c = (4, bs)"
    using hi by (simp add: not_gt_max ord2utf8_def idx bs_def fill_one fill_numeral utf8_table2_def)
  have tb: "take_bit 21 c = c" using hi by (rule le_take_bit)
  note ld = lead4 [of c, unfolded tb]
  note core = core4 [of c, unfolded tb]
  have b: "byte_at (bs @ rest) (0) = ucast (0xf0 OR drop_bit 18 c)"
    "byte_at (bs @ rest) (Suc 0) = ucast (0x80 OR (drop_bit 12 c AND 0x3f))"
    "byte_at (bs @ rest) (Suc (Suc 0)) = ucast (0x80 OR (drop_bit 6 c AND 0x3f))"
    "byte_at (bs @ rest) (Suc (Suc (Suc 0))) = ucast (0x80 OR (c AND 0x3f))"
    by (simp_all add: bs_def byte_at_def)
  have cont: "utf82ord_cont (bs @ rest) 0 (Suc (Suc (Suc 0))) 18 (push_bit 18 ((ucast (ucast (0xf0 OR drop_bit 18 c) :: u8) :: u32) AND 0x07)) = Inr c"
    by (simp only: cont_unroll4 b trail_ok core) simp
  have n: "nat 3 = Suc (Suc (Suc 0))" "6 * Suc (Suc (Suc 0)) = 18" "3 = nat 3" by simp_all
  have t3: "utf8_table3 ! (Suc (Suc (Suc 0))) = 0x07" by (simp add: utf8_table3_def)
  show "utf82ord (bs @ rest) v = (4, c)"
    unfolding utf82ord_def Let_def b(1) ld
    by (simp only: t3 n(1,2) cont) (simp add: idx)
qed

lemma cont_unroll5:
  "utf82ord_cont bs 0 (Suc (Suc (Suc (Suc 0)))) 24 d =
     (if (ucast (byte_at bs (Suc 0)) :: u32) AND 0xc0 \<noteq> 0x80 then Inl (- 1) else (if (ucast (byte_at bs (Suc (Suc 0))) :: u32) AND 0xc0 \<noteq> 0x80 then Inl (- 2) else (if (ucast (byte_at bs (Suc (Suc (Suc 0)))) :: u32) AND 0xc0 \<noteq> 0x80 then Inl (- 3) else (if (ucast (byte_at bs (Suc (Suc (Suc (Suc 0))))) :: u32) AND 0xc0 \<noteq> 0x80 then Inl (- 4) else Inr ((((d OR push_bit 18 ((ucast (byte_at bs (Suc 0)) :: u32) AND 0x3f)) OR push_bit 12 ((ucast (byte_at bs (Suc (Suc 0))) :: u32) AND 0x3f)) OR push_bit 6 ((ucast (byte_at bs (Suc (Suc (Suc 0)))) :: u32) AND 0x3f)) OR push_bit 0 ((ucast (byte_at bs (Suc (Suc (Suc (Suc 0))))) :: u32) AND 0x3f))))))"
  apply (subst cont_step [of "0" "Suc (Suc (Suc (Suc 0)))"], simp)
  apply (subst cont_step [of "Suc 0" "Suc (Suc (Suc (Suc 0)))"], simp)
  apply (subst cont_step [of "Suc (Suc 0)" "Suc (Suc (Suc (Suc 0)))"], simp)
  apply (subst cont_step [of "Suc (Suc (Suc 0))" "Suc (Suc (Suc (Suc 0)))"], simp)
  apply (subst cont_done)
  apply (simp del: push_bit_and)
  done

lemma lead5:
  fixes x :: u32
  shows "utf82ord_extra (- 1) (ucast (ucast (0xf8 OR drop_bit 24 (take_bit 26 x)) :: u8) :: u32) = 4"
  unfolding extra_closed by (simp only: byte_consts) (simp add: bit_simps)

lemma core5:
  fixes c :: u32
  defines "b0 \<equiv> (ucast (ucast (0xf8 OR drop_bit 24 c) :: u8) :: u32)"
  defines "b1 \<equiv> (ucast (ucast (0x80 OR (drop_bit 18 c AND 0x3f)) :: u8) :: u32)"
  defines "b2 \<equiv> (ucast (ucast (0x80 OR (drop_bit 12 c AND 0x3f)) :: u8) :: u32)"
  defines "b3 \<equiv> (ucast (ucast (0x80 OR (drop_bit 6 c AND 0x3f)) :: u8) :: u32)"
  defines "b4 \<equiv> (ucast (ucast (0x80 OR (c AND 0x3f)) :: u8) :: u32)"
  shows "((((push_bit 24 (b0 AND 0x03) OR push_bit 18 (b1 AND 0x3f)) OR push_bit 12 (b2 AND 0x3f)) OR push_bit 6 (b3 AND 0x3f)) OR push_bit 0 (b4 AND 0x3f)) = take_bit 26 c"
  unfolding b0_def b1_def b2_def b3_def b4_def
  by (simp only: trail_payload lead_payload push_bit_0_id id_apply or.assoc join_bits join_bit30)

lemma rt5:
  fixes c :: u32
  assumes lo: "\<not> c \<le> 0x1fffff" and hi: "c \<le> 0x3ffffff"
  defines "bs \<equiv> [ucast (0xf8 OR drop_bit 24 c), ucast (0x80 OR (drop_bit 18 c AND 0x3f)), ucast (0x80 OR (drop_bit 12 c AND 0x3f)), ucast (0x80 OR (drop_bit 6 c AND 0x3f)), ucast (0x80 OR (c AND 0x3f))] :: u8 list"
  shows "ord2utf8 c = (5, bs)" and "utf82ord (bs @ rest) v = (5, c)"
proof -
  have idx: "table1_index 0 c = 4"
    using lo hi le_chain [of c] by (auto simp add: table1_index.simps utf8_table1_def utf8_table1_size_def)
  show enc: "ord2utf8 c = (5, bs)"
    using hi by (simp add: not_gt_max ord2utf8_def idx bs_def fill_one fill_numeral utf8_table2_def)
  have tb: "take_bit 26 c = c" using hi by (rule le_take_bit)
  note ld = lead5 [of c, unfolded tb]
  note core = core5 [of c, unfolded tb]
  have b: "byte_at (bs @ rest) (0) = ucast (0xf8 OR drop_bit 24 c)"
    "byte_at (bs @ rest) (Suc 0) = ucast (0x80 OR (drop_bit 18 c AND 0x3f))"
    "byte_at (bs @ rest) (Suc (Suc 0)) = ucast (0x80 OR (drop_bit 12 c AND 0x3f))"
    "byte_at (bs @ rest) (Suc (Suc (Suc 0))) = ucast (0x80 OR (drop_bit 6 c AND 0x3f))"
    "byte_at (bs @ rest) (Suc (Suc (Suc (Suc 0)))) = ucast (0x80 OR (c AND 0x3f))"
    by (simp_all add: bs_def byte_at_def)
  have cont: "utf82ord_cont (bs @ rest) 0 (Suc (Suc (Suc (Suc 0)))) 24 (push_bit 24 ((ucast (ucast (0xf8 OR drop_bit 24 c) :: u8) :: u32) AND 0x03)) = Inr c"
    by (simp only: cont_unroll5 b trail_ok core) simp
  have n: "nat 4 = Suc (Suc (Suc (Suc 0)))" "6 * Suc (Suc (Suc (Suc 0))) = 24" "4 = nat 4" by simp_all
  have t3: "utf8_table3 ! (Suc (Suc (Suc (Suc 0)))) = 0x03" by (simp add: utf8_table3_def)
  show "utf82ord (bs @ rest) v = (5, c)"
    unfolding utf82ord_def Let_def b(1) ld
    by (simp only: t3 n(1,2) cont) (simp add: idx)
qed

lemma cont_unroll6:
  "utf82ord_cont bs 0 (Suc (Suc (Suc (Suc (Suc 0))))) 30 d =
     (if (ucast (byte_at bs (Suc 0)) :: u32) AND 0xc0 \<noteq> 0x80 then Inl (- 1) else (if (ucast (byte_at bs (Suc (Suc 0))) :: u32) AND 0xc0 \<noteq> 0x80 then Inl (- 2) else (if (ucast (byte_at bs (Suc (Suc (Suc 0)))) :: u32) AND 0xc0 \<noteq> 0x80 then Inl (- 3) else (if (ucast (byte_at bs (Suc (Suc (Suc (Suc 0))))) :: u32) AND 0xc0 \<noteq> 0x80 then Inl (- 4) else (if (ucast (byte_at bs (Suc (Suc (Suc (Suc (Suc 0)))))) :: u32) AND 0xc0 \<noteq> 0x80 then Inl (- 5) else Inr (((((d OR push_bit 24 ((ucast (byte_at bs (Suc 0)) :: u32) AND 0x3f)) OR push_bit 18 ((ucast (byte_at bs (Suc (Suc 0))) :: u32) AND 0x3f)) OR push_bit 12 ((ucast (byte_at bs (Suc (Suc (Suc 0)))) :: u32) AND 0x3f)) OR push_bit 6 ((ucast (byte_at bs (Suc (Suc (Suc (Suc 0))))) :: u32) AND 0x3f)) OR push_bit 0 ((ucast (byte_at bs (Suc (Suc (Suc (Suc (Suc 0)))))) :: u32) AND 0x3f)))))))"
  apply (subst cont_step [of "0" "Suc (Suc (Suc (Suc (Suc 0))))"], simp)
  apply (subst cont_step [of "Suc 0" "Suc (Suc (Suc (Suc (Suc 0))))"], simp)
  apply (subst cont_step [of "Suc (Suc 0)" "Suc (Suc (Suc (Suc (Suc 0))))"], simp)
  apply (subst cont_step [of "Suc (Suc (Suc 0))" "Suc (Suc (Suc (Suc (Suc 0))))"], simp)
  apply (subst cont_step [of "Suc (Suc (Suc (Suc 0)))" "Suc (Suc (Suc (Suc (Suc 0))))"], simp)
  apply (subst cont_done)
  apply (simp del: push_bit_and)
  done

lemma lead6:
  fixes x :: u32
  shows "utf82ord_extra (- 1) (ucast (ucast (0xfc OR drop_bit 30 (take_bit 31 x)) :: u8) :: u32) = 5"
  unfolding extra_closed by (simp only: byte_consts) (simp add: bit_simps)

lemma core6:
  fixes c :: u32
  defines "b0 \<equiv> (ucast (ucast (0xfc OR drop_bit 30 c) :: u8) :: u32)"
  defines "b1 \<equiv> (ucast (ucast (0x80 OR (drop_bit 24 c AND 0x3f)) :: u8) :: u32)"
  defines "b2 \<equiv> (ucast (ucast (0x80 OR (drop_bit 18 c AND 0x3f)) :: u8) :: u32)"
  defines "b3 \<equiv> (ucast (ucast (0x80 OR (drop_bit 12 c AND 0x3f)) :: u8) :: u32)"
  defines "b4 \<equiv> (ucast (ucast (0x80 OR (drop_bit 6 c AND 0x3f)) :: u8) :: u32)"
  defines "b5 \<equiv> (ucast (ucast (0x80 OR (c AND 0x3f)) :: u8) :: u32)"
  shows "(((((push_bit 30 (b0 AND 0x01) OR push_bit 24 (b1 AND 0x3f)) OR push_bit 18 (b2 AND 0x3f)) OR push_bit 12 (b3 AND 0x3f)) OR push_bit 6 (b4 AND 0x3f)) OR push_bit 0 (b5 AND 0x3f)) = take_bit 31 c"
  unfolding b0_def b1_def b2_def b3_def b4_def b5_def
  by (simp only: trail_payload lead_payload push_bit_0_id id_apply or.assoc join_bits join_bit30)

lemma rt6:
  fixes c :: u32
  assumes lo: "\<not> c \<le> 0x3ffffff" and hi: "c \<le> 0x7fffffff"
  defines "bs \<equiv> [ucast (0xfc OR drop_bit 30 c), ucast (0x80 OR (drop_bit 24 c AND 0x3f)), ucast (0x80 OR (drop_bit 18 c AND 0x3f)), ucast (0x80 OR (drop_bit 12 c AND 0x3f)), ucast (0x80 OR (drop_bit 6 c AND 0x3f)), ucast (0x80 OR (c AND 0x3f))] :: u8 list"
  shows "ord2utf8 c = (6, bs)" and "utf82ord (bs @ rest) v = (6, c)"
proof -
  have idx: "table1_index 0 c = 5"
    using lo hi le_chain [of c] by (auto simp add: table1_index.simps utf8_table1_def utf8_table1_size_def)
  show enc: "ord2utf8 c = (6, bs)"
    using hi by (simp add: not_gt_max ord2utf8_def idx bs_def fill_one fill_numeral utf8_table2_def)
  have tb: "take_bit 31 c = c" using hi by (rule le_take_bit)
  note ld = lead6 [of c, unfolded tb]
  note core = core6 [of c, unfolded tb]
  have b: "byte_at (bs @ rest) (0) = ucast (0xfc OR drop_bit 30 c)"
    "byte_at (bs @ rest) (Suc 0) = ucast (0x80 OR (drop_bit 24 c AND 0x3f))"
    "byte_at (bs @ rest) (Suc (Suc 0)) = ucast (0x80 OR (drop_bit 18 c AND 0x3f))"
    "byte_at (bs @ rest) (Suc (Suc (Suc 0))) = ucast (0x80 OR (drop_bit 12 c AND 0x3f))"
    "byte_at (bs @ rest) (Suc (Suc (Suc (Suc 0)))) = ucast (0x80 OR (drop_bit 6 c AND 0x3f))"
    "byte_at (bs @ rest) (Suc (Suc (Suc (Suc (Suc 0))))) = ucast (0x80 OR (c AND 0x3f))"
    by (simp_all add: bs_def byte_at_def)
  have cont: "utf82ord_cont (bs @ rest) 0 (Suc (Suc (Suc (Suc (Suc 0))))) 30 (push_bit 30 ((ucast (ucast (0xfc OR drop_bit 30 c) :: u8) :: u32) AND 0x01)) = Inr c"
    by (simp only: cont_unroll6 b trail_ok core) simp
  have n: "nat 5 = Suc (Suc (Suc (Suc (Suc 0))))" "6 * Suc (Suc (Suc (Suc (Suc 0)))) = 30" "5 = nat 5" by simp_all
  have t3: "utf8_table3 ! (Suc (Suc (Suc (Suc (Suc 0))))) = 0x01" by (simp add: utf8_table3_def)
  show "utf82ord (bs @ rest) v = (6, c)"
    unfolding utf82ord_def Let_def b(1) ld
    by (simp only: t3 n(1,2) cont) (simp add: idx)
qed


lemma rt1:
  fixes c :: u32
  assumes hi: "c \<le> 0x7f"
  shows "ord2utf8 c = (1, [ucast c])" and "utf82ord ([ucast c] @ rest) v = (1, c)"
proof -
  have idx: "table1_index 0 c = 0"
    using hi by (simp add: table1_index.simps utf8_table1_def utf8_table1_size_def)
  show "ord2utf8 c = (1, [ucast c])"
    using hi by (simp add: not_gt_max ord2utf8_def idx utf8_table2_def)
  have tb: "take_bit 7 c = c" using hi by (rule le_take_bit)
  have same: "(ucast (ucast (take_bit 7 c) :: u8) :: u32) = take_bit 7 c"
    by (rule bit_word_eqI) (auto simp add: bit_simps)
  have "utf82ord_extra (- 1) (take_bit 7 c) = - 1"
    unfolding extra_closed by (simp add: bit_simps)
  then show "utf82ord ([ucast c] @ rest) v = (1, c)"
    using same by (simp add: utf82ord_def byte_at_def Let_def tb)
qed

lemma ord2utf8_cases:
  fixes c :: u32
  assumes "c \<le> 0x7fffffff"
  obtains "c \<le> 0x7f"
  | "\<not> c \<le> 0x7f" "c \<le> 0x7ff"
  | "\<not> c \<le> 0x7ff" "c \<le> 0xffff"
  | "\<not> c \<le> 0xffff" "c \<le> 0x1fffff"
  | "\<not> c \<le> 0x1fffff" "c \<le> 0x3ffffff"
  | "\<not> c \<le> 0x3ffffff" "c \<le> 0x7fffffff"
  using assms by blast

lemma utf82ord_ord2utf8:
  fixes c :: u32
  assumes "c \<le> 0x7fffffff"
  shows "utf82ord (snd (ord2utf8 c) @ rest) v = (fst (ord2utf8 c), c)"
proof (rule ord2utf8_cases [OF assms])
  assume a: "c \<le> 0x7f"
  show ?thesis using rt1(1) [OF a] rt1(2) [OF a, where rest = rest and v = v] by simp
next
  assume a: "\<not> c \<le> 0x7f" "c \<le> 0x7ff"
  show ?thesis using rt2(1) [OF a] rt2(2) [OF a, where rest = rest and v = v] by simp
next
  assume a: "\<not> c \<le> 0x7ff" "c \<le> 0xffff"
  show ?thesis using rt3(1) [OF a] rt3(2) [OF a, where rest = rest and v = v] by simp
next
  assume a: "\<not> c \<le> 0xffff" "c \<le> 0x1fffff"
  show ?thesis using rt4(1) [OF a] rt4(2) [OF a, where rest = rest and v = v] by simp
next
  assume a: "\<not> c \<le> 0x1fffff" "c \<le> 0x3ffffff"
  show ?thesis using rt5(1) [OF a] rt5(2) [OF a, where rest = rest and v = v] by simp
next
  assume a: "\<not> c \<le> 0x3ffffff" "c \<le> 0x7fffffff"
  show ?thesis using rt6(1) [OF a] rt6(2) [OF a, where rest = rest and v = v] by simp
qed

lemma ord2utf8_length:
  fixes c :: u32
  assumes "c \<le> 0x7fffffff"
  shows "fst (ord2utf8 c) = int (length (snd (ord2utf8 c)))"
    and "0 < fst (ord2utf8 c)"
    and "snd (ord2utf8 c) \<noteq> []"
proof -
  have "fst (ord2utf8 c) = int (length (snd (ord2utf8 c))) \<and> 0 < fst (ord2utf8 c)
        \<and> snd (ord2utf8 c) \<noteq> []"
  proof (rule ord2utf8_cases [OF assms])
    assume a: "c \<le> 0x7f"
    show ?thesis using rt1(1) [OF a] by simp
  next
    assume a: "\<not> c \<le> 0x7f" "c \<le> 0x7ff"
    show ?thesis using rt2(1) [OF a] by simp
  next
    assume a: "\<not> c \<le> 0x7ff" "c \<le> 0xffff"
    show ?thesis using rt3(1) [OF a] by simp
  next
    assume a: "\<not> c \<le> 0xffff" "c \<le> 0x1fffff"
    show ?thesis using rt4(1) [OF a] by simp
  next
    assume a: "\<not> c \<le> 0x1fffff" "c \<le> 0x3ffffff"
    show ?thesis using rt5(1) [OF a] by simp
  next
    assume a: "\<not> c \<le> 0x3ffffff" "c \<le> 0x7fffffff"
    show ?thesis using rt6(1) [OF a] by simp
  qed
  then show "fst (ord2utf8 c) = int (length (snd (ord2utf8 c)))"
    and "0 < fst (ord2utf8 c)" and "snd (ord2utf8 c) \<noteq> []"
    by simp_all
qed

text \<open>
  Claim C2. For every codepoint \<open>c\<close> in [0, 0x10FFFF] outside the surrogate range,
  decoding the bytes that \<open>ord2utf8\<close> produced returns the value \<open>c\<close> and a
  consumed-byte count equal to the number of bytes \<open>ord2utf8\<close> stored, which is
  its (positive) return value.
\<close>

theorem utf82ord_ord2utf8_roundtrip:
  fixes c :: u32
  assumes "c \<le> 0x10FFFF" and "\<not> (0xD800 \<le> c \<and> c \<le> 0xDFFF)"
  shows "utf82ord (snd (ord2utf8 c)) v = (fst (ord2utf8 c), c)
         \<and> fst (ord2utf8 c) = int (length (snd (ord2utf8 c)))
         \<and> 0 < fst (ord2utf8 c)"
proof -
  have "c \<le> 0x7fffffff"
    using assms(1) by (rule order_trans) simp
  then show ?thesis
    using utf82ord_ord2utf8 [of c "[]" v] ord2utf8_length [of c] by simp
qed

theorem utf82ord_ord2utf8_roundtrip_witness:
  "(0x20AC :: u32) \<le> 0x10FFFF \<and> \<not> (0xD800 \<le> (0x20AC :: u32) \<and> (0x20AC :: u32) \<le> 0xDFFF)
   \<and> ord2utf8 0x20AC = (3, [0xE2, 0x82, 0xAC])
   \<and> utf82ord [0xE2, 0x82, 0xAC] 0 = (3, 0x20AC)"
proof -
  have e: "ord2utf8 0x20AC = (3, [0xE2, 0x82, 0xAC])"
    by code_simp
  have h: "(0x20AC :: u32) \<le> 0x10FFFF" "\<not> (0xD800 \<le> (0x20AC :: u32) \<and> (0x20AC :: u32) \<le> 0xDFFF)"
    by simp_all
  show ?thesis
    using utf82ord_ord2utf8_roundtrip [OF h, of 0] h by (simp add: e)
qed

section \<open>Properties of the width converter\<close>

lemma to16_loop_utf8_of:
  assumes "\<forall>c\<in>set cps. c \<le> 0x7fffffff"
  shows "to16_loop (utf8_of cps @ rest) utf (int (length (utf8_of cps))) acc = to16_units cps utf acc"
  using assms
proof (induction cps arbitrary: acc utf)
  case Nil
  show ?case by (subst to16_loop.simps) (simp add: utf8_of_def)
next
  case (Cons c cs)
  have c: "c \<le> 0x7fffffff" using Cons.prems by simp
  have rest: "\<forall>c\<in>set cs. c \<le> 0x7fffffff" using Cons.prems by simp
  note len = ord2utf8_length [OF c]
  have dec: "utf82ord (utf8_of (c # cs) @ rest) 0 = (fst (ord2utf8 c), c)"
    using utf82ord_ord2utf8 [OF c, of "utf8_of cs @ rest" 0] by (simp add: utf8_of_def)
  have dr: "drop (nat (fst (ord2utf8 c))) (utf8_of (c # cs) @ rest) = utf8_of cs @ rest"
    by (simp add: len(1) utf8_of_def)
  have ln: "int (length (utf8_of (c # cs))) - fst (ord2utf8 c) = int (length (utf8_of cs))"
    by (simp add: len(1) utf8_of_def)
  have tot: "int (length (utf8_of (c # cs))) = fst (ord2utf8 c) + int (length (utf8_of cs))"
    by (simp add: len(1) utf8_of_def)
  have pos: "int (length (utf8_of (c # cs))) > 0"
    unfolding tot using len(2) by (intro add_pos_nonneg) simp_all
  have chpos: "\<not> fst (ord2utf8 c) \<le> 0"
    using len(2) by simp
  show ?case
    apply (subst to16_loop.simps)
    apply (simp only: dec dr ln pos chpos if_True if_False split)
    apply (simp add: utf16_units_def Cons.IH [OF rest])
    done
qed

lemma u32_bounds:
  fixes c :: u32
  shows "c \<le> 0xffff \<Longrightarrow> c < 0x10000" and "c \<le> 0xffff \<Longrightarrow> \<not> 0x10ffff < c"
    and "c < 0x10000 \<Longrightarrow> \<not> 0xffff < c" and "c \<le> 0x10ffff \<Longrightarrow> \<not> 0x10ffff < c"
  by (simp_all add: word_le_def word_less_def)

lemma to16_units_high:
  "utf \<Longrightarrow> \<exists>c\<in>set cps. c > 0x10ffff \<Longrightarrow> fst (to16_units cps utf acc) = - 2"
  by (induction cps arbitrary: acc) auto

lemma to16_units_wide:
  "\<not> utf \<Longrightarrow> \<exists>c\<in>set cps. c > 0xffff \<Longrightarrow>
     fst (to16_units cps utf acc) = - 2 \<or> fst (to16_units cps utf acc) = - 3"
  by (induction cps arbitrary: acc) (auto simp add: u32_bounds)

lemma to16_units_bmp:
  "\<forall>c\<in>set cps. c \<le> 0xffff \<Longrightarrow>
     to16_units cps utf acc = (int (length acc + length cps), acc @ map ucast cps @ [0])"
  by (induction cps arbitrary: acc) (simp_all add: u32_bounds)

lemma to16_units_utf:
  "\<forall>c\<in>set cps. c \<le> 0x10ffff \<Longrightarrow>
     to16_units cps True acc =
       (int (length (acc @ concat (map utf16_units cps))), acc @ concat (map utf16_units cps) @ [0])"
  by (induction cps arbitrary: acc) (simp_all add: u32_bounds utf16_units_def)

lemma to16_units_first_wide:
  "\<forall>x\<in>set pre. x \<le> 0xffff \<Longrightarrow> c > 0xffff \<Longrightarrow>
     fst (to16_units (pre @ c # post) False acc) = (if c > 0x10ffff then - 2 else - 3)"
  by (induction pre arbitrary: acc) (auto simp add: u32_bounds)

text \<open>
  What \<open>to16\<close> returns on the textual form of a list of codepoints, when \<open>2*len + 2\<close> fits
  an \<open>int\<close>, the allocation succeeds and the buffer pointer is not null when no
  allocation is made. In UTF mode: -2 when a codepoint above 0x10FFFF occurs, and
  otherwise the number of units, every codepoint up to 0xFFFF (surrogates included)
  being stored as one unit and every other one as the pair \<open>utf16_units\<close>. In non-UTF
  mode: at the first codepoint above 0xFFFF, -2 when it is above 0x10FFFF and -3 when
  it is not; without such a codepoint, the number of codepoints, each stored as one
  unit. The units are stored from the start of the buffer, followed by a zero unit;
  what the buffer held beyond them is kept.
\<close>

lemma to16_on_codepoints:
  assumes enc: "\<forall>c\<in>set cps. c \<le> 0x7fffffff"
    and len: "blen = int (length (utf8_of cps))"
    and fits: "2 * blen + 2 \<le> INT_MAX"
    and alloc: "malloc_ok (if 2 * blen + 2 < 256 then 256 else 2 * blen + 2)"
    and buf: "pbuffer16_size st < 2 * blen + 2 \<or> pbuffer16 st \<noteq> None"
  shows "\<exists>r st'. to16 malloc_ok st (utf8_of cps) utf blen = Returns (r, st') \<and>
     (utf \<and> (\<exists>c\<in>set cps. c > 0x10ffff) \<longrightarrow> r = - 2) \<and>
     (\<not> utf \<and> cps = pre @ w # post \<and> (\<forall>x\<in>set pre. x \<le> 0xffff) \<and> w > 0xffff \<longrightarrow>
        r = (if w > 0x10ffff then - 2 else - 3)) \<and>
     ((\<forall>c\<in>set cps. c \<le> 0xffff) \<longrightarrow>
        r = int (length cps) \<and>
        pbuffer16 st' = Some (map ucast cps @ [0]
           @ drop (length cps + 1) (case pbuffer16 st of None \<Rightarrow> [] | Some old \<Rightarrow>
               if pbuffer16_size st < 2 * blen + 2 then [] else old))) \<and>
     (utf \<and> (\<forall>c\<in>set cps. c \<le> 0x10ffff) \<longrightarrow>
        r = int (length (concat (map utf16_units cps))) \<and>
        pbuffer16 st' = Some (concat (map utf16_units cps) @ [0]
           @ drop (length (concat (map utf16_units cps)) + 1)
               (case pbuffer16 st of None \<Rightarrow> [] | Some old \<Rightarrow>
                  if pbuffer16_size st < 2 * blen + 2 then [] else old)))"
proof -
  have lo: "INT_MIN \<le> 2 * blen + 2"
    by (simp add: len INT_MIN_def)
  obtain r units where loop: "to16_loop (utf8_of cps) utf blen [] = (r, units)"
    by (cases "to16_loop (utf8_of cps) utf blen []")
  have ref: "to16_units cps utf [] = (r, units)"
    using to16_loop_utf8_of [OF enc, of "[]" utf "[]"] loop len by simp
  have p1: "utf \<and> (\<exists>c\<in>set cps. c > 0x10ffff) \<longrightarrow> r = - 2"
  proof
    assume a: "utf \<and> (\<exists>c\<in>set cps. c > 0x10ffff)"
    then have "fst (to16_units cps utf []) = - 2"
      by (intro to16_units_high) simp_all
    then show "r = - 2" by (simp add: ref)
  qed
  have p2: "\<not> utf \<and> cps = pre @ w # post \<and> (\<forall>x\<in>set pre. x \<le> 0xffff) \<and> w > 0xffff \<longrightarrow>
        r = (if w > 0x10ffff then - 2 else - 3)"
  proof
    assume a: "\<not> utf \<and> cps = pre @ w # post \<and> (\<forall>x\<in>set pre. x \<le> 0xffff) \<and> w > 0xffff"
    then have u: "utf = False" and e: "cps = pre @ w # post"
      and b: "\<forall>x\<in>set pre. x \<le> 0xffff" and c: "w > 0xffff" by simp_all
    have "fst (to16_units (pre @ w # post) False []) = (if w > 0x10ffff then - 2 else - 3)"
      using b c by (rule to16_units_first_wide)
    then show "r = (if w > 0x10ffff then - 2 else - 3)"
      using ref by (simp only: u e fst_conv)
  qed
  have p3: "(\<forall>c\<in>set cps. c \<le> 0xffff) \<longrightarrow> r = int (length cps) \<and> units = map ucast cps @ [0]"
  proof
    assume a: "\<forall>c\<in>set cps. c \<le> 0xffff"
    show "r = int (length cps) \<and> units = map ucast cps @ [0]"
      using to16_units_bmp [OF a, of utf "[]"] by (simp add: ref)
  qed
  have p4: "utf \<and> (\<forall>c\<in>set cps. c \<le> 0x10ffff) \<longrightarrow>
      r = int (length (concat (map utf16_units cps))) \<and> units = concat (map utf16_units cps) @ [0]"
  proof
    assume a: "utf \<and> (\<forall>c\<in>set cps. c \<le> 0x10ffff)"
    then have u: "utf = True" and b: "\<forall>c\<in>set cps. c \<le> 0x10ffff" by simp_all
    show "r = int (length (concat (map utf16_units cps))) \<and> units = concat (map utf16_units cps) @ [0]"
      using to16_units_utf [OF b, of "[]"] ref by (simp add: u)
  qed
  show ?thesis
  proof (cases "pbuffer16_size st < 2 * blen + 2")
    case True
    have "to16 malloc_ok st (utf8_of cps) utf blen =
        Returns (r, \<lparr>pbuffer16_size = (if 2 * blen + 2 < 256 then 256 else 2 * blen + 2),
                      pbuffer16 = Some units\<rparr>)"
      using True alloc loop fits lo by (simp add: to16_def Let_def)
    then show ?thesis using p1 p2 p3 p4 True by (auto split: option.splits)
  next
    case False
    then obtain old where old: "pbuffer16 st = Some old" using buf by auto
    have "to16 malloc_ok st (utf8_of cps) utf blen =
        Returns (r, st\<lparr>pbuffer16 := Some (overwrite old units)\<rparr>)"
      using False old loop fits lo by (simp add: to16_def)
    then show ?thesis using p1 p2 p3 p4 False old by (auto simp add: overwrite_def)
  qed
qed

text \<open>
  Claim C8 does not hold of the code. The comment that heads \<open>to16\<close> gives each class of
  rejection its own error: -2 for a value above 0x10FFFF in UTF mode, -3 for a value
  above 0xFFFF when not in UTF mode. But \<^verbatim>\<open>if (c > 0x10ffff) return -2;\<close> comes before
  the test of \<open>utf\<close>: in non-UTF mode the codepoint 0x110000 (the bytes F4 90 80 80) is
  answered with -2, the error of the other class, as it is in UTF mode, while the
  codepoint 0x10000 (the bytes F0 90 80 80) is answered with -3.
\<close>

theorem to16_error_of_other_class:
  "to16 (\<lambda>n. True) \<lparr>pbuffer16_size = 0, pbuffer16 = None\<rparr> [0xF4, 0x90, 0x80, 0x80] False 4
   = Returns (- 2, \<lparr>pbuffer16_size = 256, pbuffer16 = Some []\<rparr>)
   \<and> to16 (\<lambda>n. True) \<lparr>pbuffer16_size = 0, pbuffer16 = None\<rparr> [0xF4, 0x90, 0x80, 0x80] True 4
   = Returns (- 2, \<lparr>pbuffer16_size = 256, pbuffer16 = Some []\<rparr>)
   \<and> to16 (\<lambda>n. True) \<lparr>pbuffer16_size = 0, pbuffer16 = None\<rparr> [0xF0, 0x90, 0x80, 0x80] False 4
   = Returns (- 3, \<lparr>pbuffer16_size = 256, pbuffer16 = Some []\<rparr>)"
  by code_simp

text \<open>
  The rest of the policy at work: in UTF mode a surrogate value is stored as it is and
  0x10000 as the pair (0xD800, 0xDC00).
\<close>

lemma to16_example:
  "to16 (\<lambda>n. True) \<lparr>pbuffer16_size = 0, pbuffer16 = None\<rparr>
      (utf8_of [0x41, 0xD800, 0x10000]) True 8
   = Returns (4, \<lparr>pbuffer16_size = 256, pbuffer16 = Some [0x41, 0xD800, 0xD800, 0xDC00, 0]\<rparr>)"
  by code_simp

section \<open>Properties of the data-line encoder\<close>

text \<open>Unfolding rules that run the encoder on a given line.\<close>

lemma copy_dup_numeral:
  "copy_dup (numeral k) mode src duplen st =
     (case memcpy_dup st src duplen of
        Returns st' \<Rightarrow>
          copy_dup (pred_numeral k) mode src duplen
            (st'\<lparr>q := (fst (q st'),
                        snd (q st') + (duplen div code_unit_size mode) * code_unit_size mode)\<rparr>)
      | Exits n \<Rightarrow> Exits n
      | Faults \<Rightarrow> Faults)"
  by (simp add: numeral_eq_Suc)

lemma copy_dup_one:
  "copy_dup 1 mode src duplen st =
     (case memcpy_dup st src duplen of
        Returns st' \<Rightarrow>
          copy_dup 0 mode src duplen
            (st'\<lparr>q := (fst (q st'),
                        snd (q st') + (duplen div code_unit_size mode) * code_unit_size mode)\<rparr>)
      | Exits n \<Rightarrow> Exits n
      | Faults \<Rightarrow> Faults)"
  by (simp only: One_nat_def copy_dup.simps)

lemmas enc_eval = encode_data_def Let_def trimmed_def ascii_def isspace_c_def isdigit_c_def
  isxdigit_c_def tolower_c_def grow_dbuffer.simps grow_dup.simps initial_state_def
  realloc_dbuffer_def size_max_def encode_loop.simps enc_step_def plain_def escape_def
  commit_def stored_def store_q_def say_def close_dup_def peek_def byte_at_def endstring_def
  subject_bytes_def write_at_def memcpy_dup_def HASUTF8EXTRALEN_def isoctal_c_def
  hex_value_def copy_dup_numeral copy_dup_one moving_heap_def fixed_heap_def

subsection \<open>Zero repeat\<close>

lemma repeat_count_zeros:
  "repeat_count 0 (replicate k 48 @ 125 # rest) = (0, 125 # rest)"
  by (induction k) (simp_all add: isdigit_c_def)

text \<open>
  Claim C10. When the scan meets \<open>]{0}\<close> (any number of zero digits, none included)
  while a duplication is open, \<open>process_data\<close> prints the zero-repeat message and
  returns \<open>PR_OK\<close>: the message is appended to what has been printed, and every other
  part of the state is as it was (buffer, its size and contents, \<open>q\<close>, \<open>start_dup\<close>,
  \<open>needlen\<close>), so the enclosed bytes are neither deleted nor replayed.
\<close>

theorem zero_repeat_rejected:
  assumes "start_dup st = Some sd"
  shows "\<exists>st'. encode_loop env mode utf st (ascii '']{'' @ replicate k 48 @ ascii ''}'' @ rest)
                = Returns (PR_OK_returned st')
          \<and> outfile st' = outfile st @ [Zero_repeat_not_allowed]
          \<and> dbuffer st' = dbuffer st \<and> dbuffer_size st' = dbuffer_size st
          \<and> dmem st' = dmem st \<and> q st' = q st \<and> start_dup st' = start_dup st
          \<and> needlen st' = needlen st"
proof -
  have "encode_loop env mode utf st (ascii '']{'' @ replicate k 48 @ ascii ''}'' @ rest)
         = Returns (PR_OK_returned (st\<lparr>outfile := outfile st @ [Zero_repeat_not_allowed]\<rparr>))"
    using assms
    by (simp add: ascii_def encode_loop.simps enc_step_def close_dup_def peek_def byte_at_def
        repeat_count_zeros say_def)
  then show ?thesis by simp
qed

text \<open>
  At work on the state reached after \<open>A\[BC\<close>, and on the whole line \<open>A\[BC]{0}D\<close>: the
  message is all that is printed, and \<open>process_data\<close> returns \<open>PR_OK\<close> without a subject.
\<close>

theorem zero_repeat_rejected_witness:
  "(\<exists>st'. encode_loop moving_heap PCRE8_MODE False
             \<lparr>dbuffer = 1, dbuffer_size = 32768, dmem = write_at (\<lambda>k. 0) 0 (ascii ''ABC''),
              q = (1, 3), start_dup = Some (1, 1), needlen = 10, outfile = []\<rparr>
             (ascii '']{0}D'')
           = Returns (PR_OK_returned st')
         \<and> outfile st' = [Zero_repeat_not_allowed] \<and> q st' = (1, 3)
         \<and> start_dup st' = Some (1, 1)
         \<and> map (dmem st') [0..<3] = ascii ''ABC'')
   \<and> (\<exists>st'. encode_data moving_heap PCRE8_MODE False False initial_state
             (ascii ''A'' @ [92] @ ascii ''[BC]{0}D'')
           = Returns (PR_OK st')
         \<and> outfile st' = [Zero_repeat_not_allowed])"
proof -
  let ?st = "\<lparr>dbuffer = 1, dbuffer_size = 32768, dmem = write_at (\<lambda>k. 0) 0 (ascii ''ABC''),
              q = (1, 3), start_dup = Some (1, 1), needlen = 10, outfile = []\<rparr>"
  have h: "start_dup ?st = Some (1, 1)"
    by simp
  have m: "map (dmem ?st) [0..<3] = ascii ''ABC''"
    by (simp add: write_at_def ascii_def upt_rec)
  have one: "\<exists>st'. encode_loop moving_heap PCRE8_MODE False ?st (ascii '']{0}D'')
           = Returns (PR_OK_returned st')
         \<and> outfile st' = [Zero_repeat_not_allowed] \<and> q st' = (1, 3)
         \<and> start_dup st' = Some (1, 1)
         \<and> map (dmem st') [0..<3] = ascii ''ABC''"
    using zero_repeat_rejected [where st = ?st and sd = "(1, 1)" and env = moving_heap
        and mode = PCRE8_MODE and utf = False and k = 1 and rest = "ascii ''D''", OF h] m
    by (auto simp add: ascii_def)
  have two: "\<exists>st'. encode_data moving_heap PCRE8_MODE False False initial_state
             (ascii ''A'' @ [92] @ ascii ''[BC]{0}D'')
           = Returns (PR_OK st')
         \<and> outfile st' = [Zero_repeat_not_allowed]"
    by (simp add: enc_eval)
  show ?thesis
    using one two by blast
qed

subsection \<open>Hex escapes in braces\<close>

lemma hex_brace_ten_digits:
  "hex_brace (ascii ''0000000411}'') 0 0 [] = (ascii ''}'', 10, 0x41, [Too_many_hex_digits])"
  by (simp add: enc_eval)

text \<open>
  Claim C7 at the data line \<open>\x{0000000411}\<close> in 8-bit non-UTF mode: the warning is
  printed, but the value committed is 0x41, formed from the first eight digits and the
  tenth; only the ninth digit is left out. The value of the first eight digits is 4.
\<close>

theorem hex_brace_uses_tenth_digit:
  "view (encode_data moving_heap PCRE8_MODE False False initial_state
           ([92] @ ascii ''x{0000000411}''))
   = Seen_Subject [Too_many_hex_digits] [0x41] 1 1 None"
  by (simp add: enc_eval view_def)

lemma hex_brace_nine_digits:
  "view (encode_data moving_heap PCRE8_MODE False False initial_state
           ([92] @ ascii ''x{000000411}''))
   = Seen_Subject [Too_many_hex_digits] [0x41] 1 1 None"
  by (simp add: enc_eval view_def)

lemma hex_brace_unclosed:
  "view (encode_data moving_heap PCRE8_MODE False False initial_state ([92] @ ascii ''x{41''))
   = Seen_Subject [] (0 # ascii ''{41'') 4 4 None"
  by (simp add: enc_eval view_def)

subsection \<open>Duplication\<close>


lemma dup_example:
  assumes "realloc_ok env 32768"
  shows "view (encode_data env PCRE8_MODE False False initial_state
           (ascii ''A'' @ [92] @ ascii ''[BC]{3}D''))
   = Seen_Subject [] (ascii ''ABCBCBCD'') 8 8 None"
  using assms by (simp add: enc_eval view_def)


subsection \<open>What a closed duplication stores\<close>





















subsection \<open>Growing the buffer while a duplication is closed\<close>

lemma copy_dup_dangling:
  "0 < k \<Longrightarrow> fst src \<noteq> dbuffer st \<Longrightarrow> copy_dup k mode src n st = Faults"
  by (cases k) (simp_all add: memcpy_dup_def)

lemma use_after_realloc:
  "encode_data moving_heap PCRE8_MODE False False initial_state ([92] @ ascii ''[AB]{20000}'')
   = Faults"
  by (simp add: enc_eval copy_dup_dangling)

lemma copy_dup_overflow:
  assumes "dbuffer_size st < snd (q st) + k * n"
    and "snd (q st) \<le> dbuffer_size st"
    and "(n div code_unit_size mode) * code_unit_size mode = n"
  shows "copy_dup k mode src n st = Faults"
  using assms
proof (induction k arbitrary: st)
  case 0
  then show ?case by simp
next
  case (Suc k)
  show ?case
  proof (cases "memcpy_dup st src n")
    case (Returns st1)
    then have ok: "snd (q st) + n \<le> dbuffer_size st" and q1: "q st1 = q st"
      and s1: "dbuffer_size st1 = dbuffer_size st"
      by (auto simp add: memcpy_dup_def split: if_splits)
    let ?st2 = "st1\<lparr>q := (fst (q st1), snd (q st1) + (n div code_unit_size mode) * code_unit_size mode)\<rparr>"
    have "copy_dup k mode src n ?st2 = Faults"
      using Suc.prems ok by (intro Suc.IH) (simp_all add: q1 s1)
    then show ?thesis using Returns by simp
  next
    case (Exits m)
    then show ?thesis by (simp add: memcpy_dup_def split: if_splits)
  next
    case Faults
    then show ?thesis by simp
  qed
qed

lemma write_past_capacity:
  "encode_data fixed_heap PCRE8_MODE False False initial_state
      ([92] @ ascii ''[AAAAAAAAAAAAAAAAAAAA]{3277}'')
   = Faults"
  by (simp add: enc_eval copy_dup_overflow del: copy_dup_numeral)

text \<open>
  Claim C4 does not hold of the code. When the buffer is grown while a duplication is
  closed, \<open>q\<close> is set again from its saved offset but \<open>start_dup\<close> keeps pointing into the
  old allocation: if \<open>realloc\<close> moves the buffer, \<open>memcpy\<close> reads through a dangling
  pointer (first line below). And \<open>needlen\<close> is increased by \<open>duplen * (i - 1)\<close> after
  \<open>i\<close> has already been decremented, one copy short: with a block of 20 bytes repeated
  3277 times the copies run past the end of the buffer even when it is extended in place
  (second line).
\<close>

theorem dup_growth_faults:
  "encode_data moving_heap PCRE8_MODE False False initial_state ([92] @ ascii ''[AB]{20000}'')
   = Faults
   \<and> encode_data fixed_heap PCRE8_MODE False False initial_state
       ([92] @ ascii ''[AAAAAAAAAAAAAAAAAAAA]{3277}'')
     = Faults"
  using use_after_realloc write_past_capacity by simp
subsection \<open>Validation of the textual line in UTF mode\<close>

lemma utf82ord_zero_first:
  assumes "byte_at bs 0 = 0"
  shows "utf82ord bs v = (1, 0)"
  by (simp add: utf82ord_def assms extra_closed)

lemma first_byte_nonzero:
  fixes c :: u32
  assumes "c \<le> 0x7fffffff" and "c \<noteq> 0"
  shows "peek (snd (ord2utf8 c) @ rest) \<noteq> 0"
proof
  assume "peek (snd (ord2utf8 c) @ rest) = 0"
  then have "utf82ord (snd (ord2utf8 c) @ rest) 0 = (1, 0)"
    by (intro utf82ord_zero_first) (simp add: peek_def)
  then show False
    using utf82ord_ord2utf8 [OF assms(1), of rest 0] assms(2) by simp
qed

lemma continuation_byte_bits:
  fixes b :: u8
  assumes "b AND 0xc0 = 0x80"
  shows "bit b 7" and "\<not> bit b 6"
proof -
  have "bit (b AND 0xc0) 7 = bit (0x80::u8) 7" "bit (b AND 0xc0) 6 = bit (0x80::u8) 6"
    by (simp_all only: assms)
  then show "bit b 7" and "\<not> bit b 6" by (simp_all add: bit_simps)
qed

lemma utf82ord_continuation_byte:
  fixes b :: u8
  assumes "b AND 0xc0 = 0x80"
  shows "utf82ord (b # rest) v = (0, v)"
  using continuation_byte_bits [OF assms]
  by (simp add: utf82ord_def byte_at_def extra_closed bit_simps)

lemma continuation_byte_nonzero:
  fixes b :: u8
  assumes "b AND 0xc0 = 0x80"
  shows "b \<noteq> 0"
  using continuation_byte_bits(1) [OF assms] by auto

lemma utf8_scan_malformed:
  assumes "\<forall>c\<in>set cps. c \<noteq> 0 \<and> c \<le> 0x7fffffff"
    and "peek m \<noteq> 0" and "fst (utf82ord m 0) \<le> 0" and "0 < n"
  shows "utf8_scan (utf8_of cps @ m) n \<le> 0"
  using assms
proof (induction cps arbitrary: n)
  case Nil
  have "utf8_scan m n = utf8_scan (drop (nat (fst (utf82ord m 0))) m) (fst (utf82ord m 0))"
    using Nil.prems by (subst utf8_scan.simps) (simp add: Let_def)
  also have "\<dots> = fst (utf82ord m 0)"
    using Nil.prems by (subst utf8_scan.simps) simp
  finally show ?case using Nil.prems by (simp add: utf8_of_def)
next
  case (Cons c cs)
  have c: "c \<le> 0x7fffffff" "c \<noteq> 0" using Cons.prems(1) by simp_all
  have rest: "\<forall>c\<in>set cs. c \<noteq> 0 \<and> c \<le> 0x7fffffff" using Cons.prems(1) by simp
  note len = ord2utf8_length [OF c(1)]
  have split: "utf8_of (c # cs) @ m = snd (ord2utf8 c) @ (utf8_of cs @ m)"
    by (simp add: utf8_of_def)
  have nz: "peek (utf8_of (c # cs) @ m) \<noteq> 0"
    unfolding split using c by (rule first_byte_nonzero)
  have dec: "fst (utf82ord (utf8_of (c # cs) @ m) 0) = fst (ord2utf8 c)"
    unfolding split using utf82ord_ord2utf8 [OF c(1), of "utf8_of cs @ m" 0] by simp
  have dr: "drop (nat (fst (ord2utf8 c))) (utf8_of (c # cs) @ m) = utf8_of cs @ m"
    unfolding split by (simp add: len(1))
  have "utf8_scan (utf8_of (c # cs) @ m) n = utf8_scan (utf8_of cs @ m) (fst (ord2utf8 c))"
    using Cons.prems(4) nz by (subst utf8_scan.simps) (simp only: Let_def dec dr, simp)
  also have "\<dots> \<le> 0"
    using rest Cons.prems(2,3) len(2) by (rule Cons.IH)
  finally show ?case .
qed

text \<open>
  Claim C9. In UTF mode the textual line (white space at both ends removed) is checked
  with \<open>utf82ord\<close> before anything is decoded. When it consists of well-formed characters
  followed by a sequence \<open>bad\<close> that \<open>utf82ord\<close> rejects where a character should begin
  (it returns a value \<open>\<le> 0\<close>: a continuation byte, a lead byte \<open>0xFE\<close> or \<open>0xFF\<close>, a
  sequence cut short, an encoding that is not the shortest one), \<open>process_data\<close> prints
  the message and returns \<open>PR_OK\<close>, so that the run goes on with the next line. The
  message is appended to what has been printed, \<open>start_dup\<close> is null, and the buffer, its
  size, its contents, \<open>q\<close> and \<open>needlen\<close> are as they were: nothing is stored, whatever
  escapes the line holds.
\<close>

theorem malformed_utf8_line_halts:
  assumes "\<not> posix" and "pattern_utf"
    and "dropWhile isspace_c (trimmed buffer) = utf8_of cps @ bad"
    and "\<forall>c\<in>set cps. c \<noteq> 0 \<and> c \<le> 0x7fffffff"
    and "(peek bad \<noteq> 0 \<and> fst (utf82ord bad 0) \<le> 0)
         \<or> (\<exists>b rest. bad = b # rest \<and> b AND 0xc0 = 0x80)"
  shows "\<exists>st'. encode_data env mode posix pattern_utf st buffer = Returns (PR_OK st')
          \<and> outfile st' = outfile st @ [Invalid_UTF8_input]
          \<and> dbuffer st' = dbuffer st \<and> dbuffer_size st' = dbuffer_size st
          \<and> dmem st' = dmem st \<and> q st' = q st \<and> needlen st' = needlen st
          \<and> start_dup st' = None"
proof -
  have rejected: "peek bad \<noteq> 0 \<and> fst (utf82ord bad 0) \<le> 0"
    using assms(5)
  proof
    assume "peek bad \<noteq> 0 \<and> fst (utf82ord bad 0) \<le> 0"
    then show ?thesis .
  next
    assume "\<exists>b rest. bad = b # rest \<and> b AND 0xc0 = 0x80"
    then obtain b rest where bad: "bad = b # rest" and b: "b AND 0xc0 = 0x80"
      by blast
    have "peek (b # rest) \<noteq> 0"
      using continuation_byte_nonzero [OF b] by (simp add: peek_def byte_at_def)
    moreover have "fst (utf82ord (b # rest) 0) \<le> 0"
      by (simp add: utf82ord_continuation_byte [OF b])
    ultimately show ?thesis unfolding bad by (rule conjI)
  qed
  then have "utf8_scan (utf8_of cps @ bad) 1 \<le> 0"
    using assms(4) by (intro utf8_scan_malformed) simp_all
  then have "encode_data env mode posix pattern_utf st buffer
      = Returns (PR_OK (st\<lparr>start_dup := None, outfile := outfile st @ [Invalid_UTF8_input]\<rparr>))"
    using assms(1,2,3) by (simp add: encode_data_def Let_def say_def)
  then show ?thesis by simp
qed

text \<open>
  At work, in 8-bit mode from the initial state, on four lines that begin with \<open>A\<close>:
  then a continuation byte (\<open>80\<close>), an encoding of 0 in two bytes (\<open>C0 80\<close>), a
  three-byte sequence cut short (\<open>E2 82\<close> before \<open>B\<close>), and the byte \<open>FF\<close>.
\<close>

lemma utf8_of_A: "utf8_of [0x41] = [0x41]"
  by (simp add: utf8_of_def rt1(1))

lemma rejected_sequences:
  "peek [0xC0, 0x80, 0x42 :: u8] \<noteq> 0 \<and> fst (utf82ord [0xC0, 0x80, 0x42] 0) \<le> 0"
  "peek [0xE2, 0x82, 0x42 :: u8] \<noteq> 0 \<and> fst (utf82ord [0xE2, 0x82, 0x42] 0) \<le> 0"
  "peek [0xFF, 0x42 :: u8] \<noteq> 0 \<and> fst (utf82ord [0xFF, 0x42] 0) \<le> 0"
  by code_simp+

theorem malformed_utf8_line_halts_witness:
  "(\<exists>st'. encode_data moving_heap PCRE8_MODE False True initial_state [0x41, 0x80, 0x42]
            = Returns (PR_OK st')
          \<and> outfile st' = [Invalid_UTF8_input] \<and> dbuffer st' = 0 \<and> q st' = (0, 0))
   \<and> (\<exists>st'. encode_data moving_heap PCRE8_MODE False True initial_state [0x41, 0xC0, 0x80, 0x42]
            = Returns (PR_OK st')
          \<and> outfile st' = [Invalid_UTF8_input] \<and> dbuffer st' = 0 \<and> q st' = (0, 0))
   \<and> (\<exists>st'. encode_data moving_heap PCRE8_MODE False True initial_state [0x41, 0xE2, 0x82, 0x42]
            = Returns (PR_OK st')
          \<and> outfile st' = [Invalid_UTF8_input] \<and> dbuffer st' = 0 \<and> q st' = (0, 0))
   \<and> (\<exists>st'. encode_data moving_heap PCRE8_MODE False True initial_state [0x41, 0xFF, 0x42]
            = Returns (PR_OK st')
          \<and> outfile st' = [Invalid_UTF8_input] \<and> dbuffer st' = 0 \<and> q st' = (0, 0))"
proof -
  have cps: "\<forall>c\<in>set [0x41 :: u32]. c \<noteq> 0 \<and> c \<le> 0x7fffffff"
    by simp
  have line: "dropWhile isspace_c (trimmed (0x41 # bad)) = utf8_of [0x41] @ bad"
    if "bad = [0x80, 0x42] \<or> bad = [0xC0, 0x80, 0x42] \<or> bad = [0xE2, 0x82, 0x42]
        \<or> bad = [0xFF, 0x42]" for bad
    using that by (auto simp add: utf8_of_A trimmed_def isspace_c_def)
  have h1: "(peek [0x80, 0x42 :: u8] \<noteq> 0 \<and> fst (utf82ord [0x80, 0x42] 0) \<le> 0)
      \<or> (\<exists>b rest. [0x80, 0x42 :: u8] = b # rest \<and> b AND 0xc0 = 0x80)"
    by simp
  have one: "\<exists>st'. encode_data moving_heap PCRE8_MODE False True initial_state [0x41, 0x80, 0x42]
            = Returns (PR_OK st')
          \<and> outfile st' = [Invalid_UTF8_input] \<and> dbuffer st' = 0 \<and> q st' = (0, 0)"
    using malformed_utf8_line_halts [where posix = False and pattern_utf = True
        and buffer = "[0x41, 0x80, 0x42]" and cps = "[0x41]" and bad = "[0x80, 0x42]"
        and env = moving_heap and mode = PCRE8_MODE and st = initial_state,
        OF _ _ line cps h1]
    by (auto simp add: initial_state_def)
  have two: "\<exists>st'. encode_data moving_heap PCRE8_MODE False True initial_state
              [0x41, 0xC0, 0x80, 0x42]
            = Returns (PR_OK st')
          \<and> outfile st' = [Invalid_UTF8_input] \<and> dbuffer st' = 0 \<and> q st' = (0, 0)"
    using malformed_utf8_line_halts [where posix = False and pattern_utf = True
        and buffer = "[0x41, 0xC0, 0x80, 0x42]" and cps = "[0x41]" and bad = "[0xC0, 0x80, 0x42]"
        and env = moving_heap and mode = PCRE8_MODE and st = initial_state,
        OF _ _ line cps disjI1 [OF rejected_sequences(1)]]
    by (auto simp add: initial_state_def)
  have three: "\<exists>st'. encode_data moving_heap PCRE8_MODE False True initial_state
              [0x41, 0xE2, 0x82, 0x42]
            = Returns (PR_OK st')
          \<and> outfile st' = [Invalid_UTF8_input] \<and> dbuffer st' = 0 \<and> q st' = (0, 0)"
    using malformed_utf8_line_halts [where posix = False and pattern_utf = True
        and buffer = "[0x41, 0xE2, 0x82, 0x42]" and cps = "[0x41]" and bad = "[0xE2, 0x82, 0x42]"
        and env = moving_heap and mode = PCRE8_MODE and st = initial_state,
        OF _ _ line cps disjI1 [OF rejected_sequences(2)]]
    by (auto simp add: initial_state_def)
  have four: "\<exists>st'. encode_data moving_heap PCRE8_MODE False True initial_state
              [0x41, 0xFF, 0x42]
            = Returns (PR_OK st')
          \<and> outfile st' = [Invalid_UTF8_input] \<and> dbuffer st' = 0 \<and> q st' = (0, 0)"
    using malformed_utf8_line_halts [where posix = False and pattern_utf = True
        and buffer = "[0x41, 0xFF, 0x42]" and cps = "[0x41]" and bad = "[0xFF, 0x42]"
        and env = moving_heap and mode = PCRE8_MODE and st = initial_state,
        OF _ _ line cps disjI1 [OF rejected_sequences(3)]]
    by (auto simp add: initial_state_def)
  show ?thesis
    using one two three four by blast
qed

section \<open>Properties of the modifiers\<close>

lemma strncmp_numeral:
  "strncmp a b (numeral k) =
     (if peek a \<noteq> peek b then uint (peek a) - uint (peek b)
      else if peek a = 0 then 0
      else strncmp (tl a) (tl b) (pred_numeral k))"
  by (simp add: numeral_eq_Suc)

lemma strncmp_one:
  "strncmp a b 1 =
     (if peek a \<noteq> peek b then uint (peek a) - uint (peek b) else 0)"
  by simp

lemmas mod_eval = decode_modifiers_def decode_loop.simps modifier_item_def Let_def
  abbreviations.simps scan_modifiers_def scan_loop.simps MODLISTCOUNT_def C1MODLISTCOUNT_def
  strncmp_numeral strncmp_one modlist_def c1modlist_def mod_name_def mod_which_def
  mod_type_def mod_value_def mod_offset_def check_modifier_def set_bits_def clear_bits_def
  complain_def separator_def in_item_def isspace_c_def ascii_def peek_def byte_at_def
  PO_options_def PO_control_def

lemma scan_x: "scan_modifiers (ascii ''x'') 1 = - 1"
  by (simp add: mod_eval)

lemma scan_extended: "scan_modifiers (ascii ''extended'') 8 = 22"
  by (simp add: mod_eval)


lemma c1_search_x: "c1_search 120 c1modlist 0 = 11"
  by (simp add: c1modlist_def)

lemma c1modlist_11: "fst (c1modlist ! 11) = ''extended''"
  by (simp add: c1modlist_def)

lemma C1MODLISTCOUNT_12: "C1MODLISTCOUNT = 12"
  by (simp add: C1MODLISTCOUNT_def c1modlist_def)

lemma modlist_22:
  "modlist ! 22 = (''extended'', MOD_PAT, MOD_OPT, PCRE2 ''PCRE2_EXTENDED'', PO_options)"
  by (simp add: modlist_def)

lemma scan_x': "scan_modifiers [120] (Suc 0) = - 1"
  using scan_x by (simp add: ascii_def)

lemma scan_extended': "scan_modifiers [101, 120, 116, 101, 110, 100, 101, 100] 8 = 22"
  using scan_extended by (simp add: ascii_def)

lemma len_extended: "length ''extended'' = 8"
  by simp

lemma abbreviations_end:
  "abbreviations K ctx pctl dctl first mp st [] = Again first st []"
  by (simp add: abbreviations.simps peek_def byte_at_def)

text \<open>
  The abbreviation \<open>x\<close>, when it is not doubled: the bit of \<open>extended\<close> is set in the
  options of the pattern control block. The \<open>index\<close> member of its entry is either not
  yet filled in, or holds what the search gives.
\<close>

lemma abbreviations_x:
  assumes "c1index st ! 11 < 0 \<or> c1index st ! 11 = 22"
    and "byte_at (120 # rest) 1 \<noteq> 120"
  shows "abbreviations K CTX_PAT True False first mp st (120 # rest)
   = abbreviations K CTX_PAT True False first mp
       (set_bits (Pctl, PO_options) (K ''PCRE2_EXTENDED'')
          (st\<lparr>c1index := (c1index st)[11 := 22]\<rparr>)) rest"
proof -
  have idx: "(if 0 \<le> c1index st ! 11 then c1index st ! 11
              else scan_modifiers (ascii ''extended'') (length ''extended'')) = 22"
    using assms(1) scan_extended unfolding len_extended by auto
  have one: "peek (120 # rest) = 120"
    by (simp add: peek_def byte_at_def)
  have uc: "(ucast (120::u8) :: u32) = 120"
    by simp
  show ?thesis
    by (subst abbreviations.simps)
       (simp only: one uc Let_def assms(2) if_False c1_search_x C1MODLISTCOUNT_12 c1modlist_11
          idx modlist_22 check_modifier_def mod_which_def mod_value_def mod_offset_def
          bits.simps, simp add: modlist_22)
qed


lemma item_end: "modifier_item K ctx pctl dctl first st [] = Returned True st"
  by (simp add: modifier_item_def peek_def byte_at_def)

lemma item_x:
  assumes "c1index st ! 11 < 0 \<or> c1index st ! 11 = 22"
  shows "modifier_item K CTX_PAT True False True st [120]
   = Again True (set_bits (Pctl, PO_options) (K ''PCRE2_EXTENDED'')
       (st\<lparr>c1index := (c1index st)[11 := 22]\<rparr>)) []"
proof -
  have nd: "byte_at [120] 1 \<noteq> 120"
    by (simp add: byte_at_def)
  have a: "dropWhile isspace_c [120] = [120]"
    "dropWhile (\<lambda>c. isspace_c c \<or> c = 44) [120] = [120]"
    "takeWhile in_item [120] = [120]"
    "takeWhile (\<lambda>c. c \<noteq> 61) [120 :: u8] = [120]"
    "peek [120] = 120"
    by (simp_all add: isspace_c_def in_item_def peek_def byte_at_def)
  show ?thesis
    unfolding modifier_item_def Let_def a
    by (simp add: scan_x' abbreviations_x [OF assms nd] abbreviations_end)
qed

lemma item_minus_x:
  assumes "c1index st ! 11 < 0 \<or> c1index st ! 11 = 22"
  shows "modifier_item K CTX_PAT True False True st [45, 120]
   = Again True (set_bits (Pctl, PO_options) (K ''PCRE2_EXTENDED'')
       (st\<lparr>c1index := (c1index st)[11 := 22]\<rparr>)) []"
proof -
  have nd: "byte_at [120] 1 \<noteq> 120"
    by (simp add: byte_at_def)
  have a: "dropWhile isspace_c [45, 120] = [45, 120]"
    "dropWhile (\<lambda>c. isspace_c c \<or> c = 44) [45, 120] = [45, 120]"
    "takeWhile in_item [45, 120] = [45, 120]"
    "takeWhile (\<lambda>c. c \<noteq> 61) [120 :: u8] = [120]"
    "peek [45, 120] = 45"
    by (simp_all add: isspace_c_def in_item_def peek_def byte_at_def)
  show ?thesis
    unfolding modifier_item_def Let_def a
    by (simp add: scan_x' abbreviations_x [OF assms nd] abbreviations_end)
qed


lemma minus_extended:
  "decode_modifiers K (ascii ''-extended'') CTX_PAT True False st
   = Returned True (clear_bits (Pctl, PO_options) (K ''PCRE2_EXTENDED'') st)"
  by (simp add: mod_eval)

lemma abbreviation_x:
  assumes "c1index st ! 11 < 0 \<or> c1index st ! 11 = 22"
  shows "decode_modifiers K (ascii ''x'') CTX_PAT True False st
   = Returned True (set_bits (Pctl, PO_options) (K ''PCRE2_EXTENDED'')
       (st\<lparr>c1index := (c1index st)[11 := 22]\<rparr>))"
  unfolding decode_modifiers_def
  by (subst decode_loop.simps, simp add: ascii_def item_x [OF assms],
      subst decode_loop.simps, simp add: item_end)

lemma abbreviation_minus_x:
  assumes "c1index st ! 11 < 0 \<or> c1index st ! 11 = 22"
  shows "decode_modifiers K (ascii ''-x'') CTX_PAT True False st
   = Returned True (set_bits (Pctl, PO_options) (K ''PCRE2_EXTENDED'')
       (st\<lparr>c1index := (c1index st)[11 := 22]\<rparr>))"
  unfolding decode_modifiers_def
  by (subst decode_loop.simps, simp add: ascii_def item_minus_x [OF assms],
      subst decode_loop.simps, simp add: item_end)


text \<open>
  Claim C5 does not hold as stated. The state below is that of a pattern control block
  whose \<open>options\<close> hold the bit of \<open>extended\<close> (here \<open>0x80\<close>), the flag bound to the
  abbreviation \<open>x\<close>. The modifier string \<open>-x\<close> is decoded with success, nothing is
  printed, and the flag is still set: the minus sign is noted in \<open>off\<close>, but the loop over
  the abbreviations does not look at \<open>off\<close>.
\<close>

theorem minus_abbreviation_leaves_flag_set:
  "(case decode_modifiers (\<lambda>name. if name = ''PCRE2_EXTENDED'' then 0x80 else 0)
           (ascii ''-x'') CTX_PAT True False
           \<lparr>words = (\<lambda>b f. if b = Pctl \<and> f = PO_options then 0x80 else 0),
            c1index = replicate 12 (- 1), printed = []\<rparr> of
      Returned ok st' \<Rightarrow> ok \<and> words st' Pctl PO_options = 0x80 \<and> printed st' = []
    | Has_data i st' \<Rightarrow> False
    | Again first st' p' \<Rightarrow> False)"
proof -
  let ?st = "\<lparr>words = (\<lambda>b f. if b = Pctl \<and> f = PO_options then 0x80 else 0),
            c1index = replicate 12 (- 1), printed = []\<rparr>"
  have "c1index ?st ! 11 < 0 \<or> c1index ?st ! 11 = 22"
    by simp
  then show ?thesis
    by (simp add: abbreviation_minus_x set_bits_def)
qed

text \<open>
  Claim C5, as the code has it, for the pattern control block and any values \<open>K\<close> of the
  option bits. The full name with a minus sign, \<open>-extended\<close>, clears the flag in
  \<open>options\<close>; the abbreviation \<open>x\<close> sets it; and \<open>-x\<close> sets it as well. The hypothesis
  says that the \<open>index\<close> member of the entry of \<open>x\<close> in \<open>c1modlist\<close> is not yet filled in,
  or holds what the search gives.
\<close>

theorem modifier_overlay:
  assumes "c1index st ! 11 < 0 \<or> c1index st ! 11 = 22"
  shows "(\<exists>st'. decode_modifiers K (ascii ''-extended'') CTX_PAT True False st = Returned True st'
            \<and> words st' Pctl PO_options
                = words st Pctl PO_options AND NOT (K ''PCRE2_EXTENDED''))
       \<and> (\<exists>st'. decode_modifiers K (ascii ''x'') CTX_PAT True False st = Returned True st'
            \<and> words st' Pctl PO_options
                = words st Pctl PO_options OR K ''PCRE2_EXTENDED'')
       \<and> (\<exists>st'. decode_modifiers K (ascii ''-x'') CTX_PAT True False st = Returned True st'
            \<and> words st' Pctl PO_options
                = words st Pctl PO_options OR K ''PCRE2_EXTENDED'')"
  by (simp add: minus_extended abbreviation_x [OF assms] abbreviation_minus_x [OF assms]
      set_bits_def clear_bits_def)

theorem modifier_overlay_witness:
  "(\<exists>st'. decode_modifiers (\<lambda>name. if name = ''PCRE2_EXTENDED'' then 0x80 else 0)
             (ascii ''-extended'') CTX_PAT True False
             \<lparr>words = (\<lambda>b f. if b = Pctl \<and> f = PO_options then 0x80 else 0),
              c1index = replicate 12 (- 1), printed = []\<rparr> = Returned True st'
          \<and> words st' Pctl PO_options = 0)
   \<and> (\<exists>st'. decode_modifiers (\<lambda>name. if name = ''PCRE2_EXTENDED'' then 0x80 else 0)
             (ascii ''x'') CTX_PAT True False
             \<lparr>words = (\<lambda>b f. if b = Pctl \<and> f = PO_options then 0x80 else 0),
              c1index = replicate 12 (- 1), printed = []\<rparr> = Returned True st'
          \<and> words st' Pctl PO_options = 0x80)
   \<and> (\<exists>st'. decode_modifiers (\<lambda>name. if name = ''PCRE2_EXTENDED'' then 0x80 else 0)
             (ascii ''-x'') CTX_PAT True False
             \<lparr>words = (\<lambda>b f. if b = Pctl \<and> f = PO_options then 0x80 else 0),
              c1index = replicate 12 (- 1), printed = []\<rparr> = Returned True st'
          \<and> words st' Pctl PO_options = 0x80)"
proof -
  let ?K = "\<lambda>name. if name = ''PCRE2_EXTENDED'' then 0x80 else (0::u32)"
  let ?st = "\<lparr>words = (\<lambda>b f. if b = Pctl \<and> f = PO_options then 0x80 else 0),
            c1index = replicate 12 (- 1), printed = []\<rparr>"
  have h: "c1index ?st ! 11 < 0 \<or> c1index ?st ! 11 = 22"
    by simp
  show ?thesis
    using modifier_overlay [where K = ?K and st = ?st, OF h] by simp
qed

section \<open>Properties of the global-match loop\<close>

lemma anyglob_of_global: "c AND CTL_GLOBAL \<noteq> 0 \<Longrightarrow> c AND CTL_ANYGLOB \<noteq> 0"
proof
  assume a: "c AND CTL_GLOBAL \<noteq> 0" and b: "c AND CTL_ANYGLOB = 0"
  have "c AND CTL_GLOBAL = (c AND CTL_ANYGLOB) AND CTL_GLOBAL"
    by (simp add: CTL_ANYGLOB_def CTL_GLOBAL_def CTL_ALTGLOBAL_def and.assoc)
  then show False using a b by simp
qed

lemma iteration_empty_match:
  assumes m: "match (pp st) (ulen st) (offset (dat_datctl st)) (g_notempty st) = (Count 1, j, j)"
    and ov: "1 \<le> sint (oveccount (dat_datctl st))"
    and g: "control (dat_datctl st) AND CTL_GLOBAL \<noteq> 0"
  shows "iteration match mode utf nl mem st =
     (if j = ulen st then Break [Captures 1 j j]
      else Next [Captures 1 j j]
             (st\<lparr>g_notempty := True,
                 dat_datctl := (dat_datctl st)\<lparr>offset := of_nat j\<rparr>,
                 gmatched := gmatched st + 1\<rparr>))"
  using ov g anyglob_of_global [OF g]
  by (simp add: iteration_def m show_match_def finish_def next_iteration_def)

lemma iteration_retry:
  assumes n: "g_notempty st"
    and m: "fst (match (pp st) (ulen st) (offset (dat_datctl st)) True) = ERROR_NOMATCH"
    and e: "fake_match_end mode utf nl mem (pp st) (ulen st) (unat (offset (dat_datctl st)))
            = unat (offset (dat_datctl st)) + 1"
    and g: "control (dat_datctl st) AND CTL_GLOBAL \<noteq> 0"
  shows "iteration match mode utf nl mem st =
     Next [] (st\<lparr>g_notempty := False,
                  dat_datctl := (dat_datctl st)\<lparr>offset := of_nat (unat (offset (dat_datctl st)) + 1)\<rparr>,
                  gmatched := gmatched st + 1\<rparr>)"
proof -
  obtain ov where r: "match (pp st) (ulen st) (offset (dat_datctl st)) True
      = (ERROR_NOMATCH, ov)"
    using m by (cases "match (pp st) (ulen st) (offset (dat_datctl st)) True") simp
  show ?thesis
    using n g anyglob_of_global [OF g]
    by (simp add: iteration_def r e finish_def next_iteration_def)
qed

lemma global_loop_numeral:
  "global_loop (numeral k) match mode utf nl mem st =
     (case iteration match mode utf nl mem st of
        Break out \<Rightarrow> Some out
      | Next out st' \<Rightarrow>
          (case global_loop (pred_numeral k) match mode utf nl mem st' of
             None \<Rightarrow> None
           | Some later \<Rightarrow> Some (out @ later)))"
  by (simp add: numeral_eq_Suc)

lemma global_loop_one:
  "global_loop 1 match mode utf nl mem st =
     (case iteration match mode utf nl mem st of
        Break out \<Rightarrow> Some out
      | Next out st' \<Rightarrow> None)"
  by (simp split: iter.splits)

lemma global_loop_from:
  assumes g: "control (dat_datctl st) AND CTL_GLOBAL \<noteq> 0"
    and ov: "1 \<le> sint (oveccount (dat_datctl st))"
    and N: "ulen st < 2 ^ 32"
    and m1: "\<forall>k\<le>ulen st. match (pp st) (ulen st) (of_nat k) False = (Count 1, k, k)"
    and m2: "\<forall>k<ulen st. fst (match (pp st) (ulen st) (of_nat k) True) = ERROR_NOMATCH"
    and adv: "\<forall>k<ulen st. fake_match_end mode utf nl mem (pp st) (ulen st) k = k + 1"
    and j: "j \<le> ulen st" "offset (dat_datctl st) = of_nat j"
    and n: "\<not> g_notempty st"
  shows "global_loop fuel match mode utf nl mem st =
     (if 2 * (ulen st - j) + 1 \<le> fuel
      then Some (map (\<lambda>k. Captures 1 k k) [j..<ulen st + 1]) else None)"
  using assms
proof (induction "ulen st - j" arbitrary: j st fuel)
  case 0
  then have jN: "j = ulen st" by simp
  have it: "iteration match mode utf nl mem st = Break [Captures 1 j j]"
    using iteration_empty_match [of match st j mode utf nl mem] "0.prems" 
    by (simp add: jN)
  show ?case
    by (cases fuel) (simp_all add: it jN)
next
  case (Suc d)
  then have lt: "j < ulen st" by simp
  have "take_bit 32 j = j"
    using lt Suc.prems(3) by (simp add: take_bit_nat_eq_self_iff)
  then have uj: "unat (of_nat j :: u32) = j"
    by (simp add: unsigned_of_nat)
  let ?st1 = "st\<lparr>g_notempty := True,
                 dat_datctl := (dat_datctl st)\<lparr>offset := of_nat j\<rparr>,
                 gmatched := gmatched st + 1\<rparr>"
  have it1: "iteration match mode utf nl mem st = Next [Captures 1 j j] ?st1"
    using iteration_empty_match [of match st j mode utf nl mem] Suc.prems lt
    by simp
  let ?st2 = "?st1\<lparr>g_notempty := False,
                  dat_datctl := (dat_datctl ?st1)\<lparr>offset := of_nat (unat (offset (dat_datctl ?st1)) + 1)\<rparr>,
                  gmatched := gmatched ?st1 + 1\<rparr>"
  have it2: "iteration match mode utf nl mem ?st1 = Next [] ?st2"
  proof (rule iteration_retry)
    show "g_notempty ?st1" by simp
    show "fst (match (pp ?st1) (ulen ?st1) (offset (dat_datctl ?st1)) True) = ERROR_NOMATCH"
      using Suc.prems(5) lt by simp
    show "fake_match_end mode utf nl mem (pp ?st1) (ulen ?st1) (unat (offset (dat_datctl ?st1)))
            = unat (offset (dat_datctl ?st1)) + 1"
      using Suc.prems(6) lt by (simp add: uj)
    show "control (dat_datctl ?st1) AND CTL_GLOBAL \<noteq> 0"
      using Suc.prems(1) by simp
  qed
  have ih: "global_loop f match mode utf nl mem ?st2 =
     (if 2 * (ulen ?st2 - (j + 1)) + 1 \<le> f
      then Some (map (\<lambda>k. Captures 1 k k) [j + 1..<ulen ?st2 + 1]) else None)" for f
  proof (rule Suc.hyps(1))
    show "d = ulen ?st2 - (j + 1)" using Suc.hyps(2) by simp
    show "control (dat_datctl ?st2) AND CTL_GLOBAL \<noteq> 0" using Suc.prems(1) by simp
    show "1 \<le> sint (oveccount (dat_datctl ?st2))" using Suc.prems(2) by simp
    show "ulen ?st2 < 2 ^ 32" using Suc.prems(3) by simp
    show "\<forall>k\<le>ulen ?st2. match (pp ?st2) (ulen ?st2) (of_nat k) False = (Count 1, k, k)"
      using Suc.prems(4) by simp
    show "\<forall>k<ulen ?st2. fst (match (pp ?st2) (ulen ?st2) (of_nat k) True) = ERROR_NOMATCH"
      using Suc.prems(5) by simp
    show "\<forall>k<ulen ?st2. fake_match_end mode utf nl mem (pp ?st2) (ulen ?st2) k = k + 1"
      using Suc.prems(6) by simp
    show "j + 1 \<le> ulen ?st2" using lt by simp
    show "offset (dat_datctl ?st2) = of_nat (j + 1)" by (simp add: uj)
    show "\<not> g_notempty ?st2" by simp
  qed
  have list: "[j..<ulen st + 1] = j # [j + 1..<ulen st + 1]"
    using lt by (simp add: upt_conv_Cons)
  show ?case
  proof (cases fuel)
    case 0
    then show ?thesis by simp
  next
    case (Suc f1)
    note f1 = this
    show ?thesis
    proof (cases f1)
      case 0
      then show ?thesis using f1 lt by (simp add: it1)
    next
      case (Suc f)
      have "global_loop fuel match mode utf nl mem st =
          (case global_loop f match mode utf nl mem ?st2 of
             None \<Rightarrow> None | Some later \<Rightarrow> Some (Captures 1 j j # later))"
        unfolding f1 Suc by (simp add: it1 it2 split: option.splits)
      also have "\<dots> = (if 2 * (ulen st - j) + 1 \<le> fuel
          then Some (map (\<lambda>k. Captures 1 k k) [j..<ulen st + 1]) else None)"
        unfolding ih list using lt f1 Suc by auto
      finally show ?thesis .
    qed
  qed
qed


text \<open>
  Claim C1 does not hold as stated. An iteration that finds an empty match before the
  end of the subject neither stops nor moves: it leaves \<open>dat_datctl.offset\<close>, \<open>pp\<close>,
  \<open>len\<close> and \<open>ulen\<close> as they were and only sets \<open>g_notempty\<close> (first equation; the
  advance is made by the following iteration). And the advance that is forced can be
  longer than one code unit: with the CRLF newline convention and the two-unit subject
  CR LF, the loop reports the empty matches at 0 and 2 only, two reports and not three
  (second equation).
\<close>

theorem empty_match_iteration_keeps_offset:
  "iteration empty_everywhere PCRE8_MODE False NEWLINE_LF (\<lambda>k. 0)
     (loop_start PCRE8_MODE CTL_GLOBAL 2)
   = Next [Captures 1 0 0]
       \<lparr>dat_datctl = \<lparr>control = CTL_GLOBAL, oveccount = 15, offset = 0\<rparr>,
        pp = 0, len = 2, ulen = 2, g_notempty = True, gmatched = 1\<rparr>
   \<and> global_loop 5 empty_everywhere PCRE8_MODE False NEWLINE_CRLF
       (\<lambda>k. if k = 0 then 13 else if k = 1 then 10 else 0)
       (loop_start PCRE8_MODE CTL_GLOBAL 2)
     = Some [Captures 1 0 0, Captures 1 2 2]"
  by (simp add: global_loop_numeral global_loop_one iteration_def empty_everywhere_def loop_start_def
      show_match_def finish_def next_iteration_def CTL_GLOBAL_def CTL_ANYGLOB_def
      CTL_ALTGLOBAL_def fake_match_end_def CODE_UNIT_def size_max_def)

text \<open>
  Claim C1, as the code has it. Let the loop run under \<open>/g\<close> from offset 0 on a subject
  of \<open>N < 2\<^sup>3\<^sup>2\<close> code units, with room for at least one pair of offsets, and let the
  matcher find the empty string at every offset from 0 to \<open>N\<close>, find nothing when it is
  called again at an offset below \<open>N\<close> with the empty match excluded, and let every
  forced advance be of one code unit. Then the loop ends, after exactly \<open>2 * N + 1\<close>
  iterations (with less fuel it has not ended), and it has printed exactly the \<open>N + 1\<close>
  empty matches at the offsets \<open>0, ..., N\<close>. Each empty match before the end takes two
  iterations: the one that reports it, and the retry, which moves the offset.
\<close>

theorem global_loop_empty_matches:
  assumes "control (dat_datctl st) AND CTL_GLOBAL \<noteq> 0"
    and "1 \<le> sint (oveccount (dat_datctl st))"
    and "ulen st < 2 ^ 32"
    and "\<forall>k\<le>ulen st. match (pp st) (ulen st) (of_nat k) False = (Count 1, k, k)"
    and "\<forall>k<ulen st. fst (match (pp st) (ulen st) (of_nat k) True) = ERROR_NOMATCH"
    and "\<forall>k<ulen st. fake_match_end mode utf nl mem (pp st) (ulen st) k = k + 1"
    and "offset (dat_datctl st) = 0"
    and "\<not> g_notempty st"
  shows "global_loop fuel match mode utf nl mem st =
     (if 2 * ulen st + 1 \<le> fuel
      then Some (map (\<lambda>k. Captures 1 k k) [0..<ulen st + 1]) else None)"
  using global_loop_from [where match = match and st = st and mode = mode and utf = utf
      and nl = nl and mem = mem and j = 0 and fuel = fuel] assms
  by simp

theorem global_loop_empty_matches_witness:
  "global_loop 5 empty_everywhere PCRE8_MODE False NEWLINE_LF (\<lambda>k. 0)
     (loop_start PCRE8_MODE CTL_GLOBAL 2)
   = Some [Captures 1 0 0, Captures 1 1 1, Captures 1 2 2]
   \<and> global_loop 4 empty_everywhere PCRE8_MODE False NEWLINE_LF (\<lambda>k. 0)
     (loop_start PCRE8_MODE CTL_GLOBAL 2)
   = None"
proof -
  let ?st = "loop_start PCRE8_MODE CTL_GLOBAL 2"
  have u: "unat (of_nat k :: u32) = k" if "k \<le> 2" for k
  proof -
    have "take_bit 32 k = k"
      using that by (simp add: take_bit_nat_eq_self_iff)
    then show ?thesis by (simp add: unsigned_of_nat)
  qed
  have h1: "control (dat_datctl ?st) AND CTL_GLOBAL \<noteq> 0"
    by (simp add: loop_start_def CTL_GLOBAL_def)
  have h2: "1 \<le> sint (oveccount (dat_datctl ?st))"
    by (simp add: loop_start_def)
  have h3: "ulen ?st < 2 ^ 32"
    by (simp add: loop_start_def)
  have h4: "\<forall>k\<le>ulen ?st. empty_everywhere (pp ?st) (ulen ?st) (of_nat k) False = (Count 1, k, k)"
    by (simp add: loop_start_def empty_everywhere_def u)
  have h5: "\<forall>k<ulen ?st. fst (empty_everywhere (pp ?st) (ulen ?st) (of_nat k) True) = ERROR_NOMATCH"
    by (simp add: empty_everywhere_def)
  have h6: "\<forall>k<ulen ?st. fake_match_end PCRE8_MODE False NEWLINE_LF (\<lambda>k. 0) (pp ?st) (ulen ?st) k = k + 1"
    by (simp add: loop_start_def fake_match_end_def size_max_def)
  have h7: "offset (dat_datctl ?st) = 0" and h8: "\<not> g_notempty ?st"
    by (simp_all add: loop_start_def)
  have n: "ulen ?st = 2"
    by (simp add: loop_start_def)
  have l: "[0..<3] = [0, 1, 2::nat]"
    by (simp add: upt_rec)
  show ?thesis
    using global_loop_empty_matches [where match = empty_everywhere and st = "?st"
        and mode = PCRE8_MODE and utf = False and nl = NEWLINE_LF and mem = "\<lambda>k. 0"
        and fuel = 5, OF h1 h2 h3 h4 h5 h6 h7 h8]
      global_loop_empty_matches [where match = empty_everywhere and st = "?st"
        and mode = PCRE8_MODE and utf = False and nl = NEWLINE_LF and mem = "\<lambda>k. 0"
        and fuel = 4, OF h1 h2 h3 h4 h5 h6 h7 h8]
    by (simp add: n l)
qed

text \<open>
  Claim C6 does not hold of the code. Under \<open>/G\<close> the pointer is advanced by the end of
  the match in code units, but the two lengths are reduced the wrong way round: \<open>len\<close>,
  the length in bytes, by the end of the match, and \<open>ulen\<close>, the length in code units,
  by the end of the match times the size of a code unit. In 16-bit mode, after a match
  that ends at 1 in a subject of 4 code units (8 bytes), \<open>pp\<close> has moved by 2 bytes,
  \<open>len\<close> is 7 and \<open>ulen\<close> is 2, where 6 and 3 remain. The offset is left as it is.
\<close>

theorem altglobal_lengths_swapped:
  "iteration (\<lambda>a n start notempty. (Count 1, 0, 1)) PCRE16_MODE False NEWLINE_LF (\<lambda>k. 0)
     \<lparr>dat_datctl = \<lparr>control = CTL_ALTGLOBAL, oveccount = 15, offset = 0\<rparr>,
      pp = 0, len = 8, ulen = 4, g_notempty = False, gmatched = 0\<rparr>
   = Next [Captures 1 0 1]
       \<lparr>dat_datctl = \<lparr>control = CTL_ALTGLOBAL, oveccount = 15, offset = 0\<rparr>,
        pp = 2, len = 7, ulen = 2, g_notempty = False, gmatched = 1\<rparr>"
  by (simp add: iteration_def show_match_def finish_def next_iteration_def CTL_GLOBAL_def
      CTL_ANYGLOB_def CTL_ALTGLOBAL_def size_max_def)


end
